theory Spec2Isabelle
  imports Main "HOL-Library.Word"
begin

section \<open>The connection pool of cobalt-mysql-pool.c\<close>

text \<open>
  The module keeps its whole state in file-scope variables. The record \<open>pool\<close> below holds
  them under their source names, and every API function takes the record and returns it
  updated. A \<open>MYSQL *\<close> is an address: \<open>None\<close> is the null pointer, \<open>Some a\<close> the
  connection object at address \<open>a\<close>.

  The calls into libmysqlclient, pthreads and the clock are outside the module. Each API
  function takes an environment record that says how each of those calls answers during
  this one invocation. The mutex \<open>db_mutex\<close> and the read-write lock \<open>db_rw_lock\<close> are
  modelled by the answer of every locking call only (an unlock has no effect on the record);
  the semaphore \<open>db_sem\<close> is modelled by its counter and, with one thread running, a
  \<open>sem_wait\<close> on a counter of zero never comes back.
\<close>

subsection \<open>Constants of the header\<close>

definition DB_POOL_CONN_COUNT :: nat where
  "DB_POOL_CONN_COUNT = 8"

definition DEFAULT_MUTEX_TIMEOUT_SEC :: int where
  "DEFAULT_MUTEX_TIMEOUT_SEC = 30"

text \<open>
  The seconds of a \<open>struct timespec\<close>: a signed 64-bit \<open>time_t\<close>, read by \<open>sint\<close>. The
  module is built with \<open>-fwrapv\<close>, so an addition on it wraps around.
\<close>

type_synonym time_t = "64 word"

text \<open>\<open>tmo_timespec.tv_sec += DEFAULT_MUTEX_TIMEOUT_SEC\<close>, on the seconds the clock stored.\<close>

definition mutex_deadline :: "time_t \<Rightarrow> time_t" where
  "mutex_deadline tv_sec = tv_sec + word_of_int DEFAULT_MUTEX_TIMEOUT_SEC"

subsection \<open>Data\<close>

type_synonym conn = nat

text \<open>The static message pointers; \<open>err_text\<close> gives the characters behind each.\<close>

datatype errmsg =
    err_not_inited
  | err_not_thread_safe
  | err_not_open
  | err_input
  | err_unknown
  | err_init_lib
  | err_init_mutex
  | err_init_rwlock
  | err_init_semaphore
  | err_connect
  | err_reconnect
  | err_init
  | err_ping
  | err_mutex
  | err_rwlock
  | err_semaphore_wait
  | err_semaphore_post
  | err_clock_gettime
  | err_no_free_slot_bug
  | err_no_busy_slot_bug

fun err_text :: "errmsg \<Rightarrow> string" where
  "err_text err_not_inited = ''database library can not be initialized''"
| "err_text err_not_thread_safe = ''database library is not thread-safe''"
| "err_text err_not_open = ''database connection is closed''"
| "err_text err_input = ''invalid input parameters''"
| "err_text err_unknown = ''unknown error or no error''"
| "err_text err_init_lib = ''failed to initialize the database library''"
| "err_text err_init_mutex = ''failed to initialize the mutex''"
| "err_text err_init_rwlock = ''failed to initialize the rw-lock''"
| "err_text err_init_semaphore = ''failed to initialize the semaphore''"
| "err_text err_connect = ''can not connect to the database''"
| "err_text err_reconnect = ''can not reconnect to the database''"
| "err_text err_init = ''the database is not initialized''"
| "err_text err_ping = ''database ping was not successful''"
| "err_text err_mutex = ''can not acquire the database mutex''"
| "err_text err_rwlock = ''can not acquire the database rw-lock''"
| "err_text err_semaphore_wait = ''semaphore wait error''"
| "err_text err_semaphore_post = ''semaphore post error''"
| "err_text err_clock_gettime = ''clock_gettime failed''"
| "err_text err_no_free_slot_bug = ''no free slot found, this is a bug''"
| "err_text err_no_busy_slot_bug = ''no busy slot found, this is a bug''"

text \<open>
  The file-scope variables. \<open>mysql_closed\<close> is not a variable of the source: it lists, latest
  first, the addresses that were handed to \<open>mysql_close\<close>, so that "this connection was
  destroyed" can be said.
\<close>

record pool =
  err_last :: "errmsg option"
  db_sem :: nat
  mysql_conns :: "conn option list"
  mysql_conns_busy :: "int list"
  is_thread_safe :: int
  is_inited :: int
  is_open :: int
  is_closed :: int
  mysql_closed :: "conn list"

text \<open>The variables as the C initialisers leave them at program start.\<close>

definition initial_pool :: pool where
  "initial_pool =
     \<lparr> err_last = None,
       db_sem = 0,
       mysql_conns = replicate DB_POOL_CONN_COUNT None,
       mysql_conns_busy = replicate DB_POOL_CONN_COUNT 0,
       is_thread_safe = 0,
       is_inited = 0,
       is_open = 0,
       is_closed = 1,
       mysql_closed = [] \<rparr>"

text \<open>Both arrays have \<open>DB_POOL_CONN_COUNT\<close> elements; no function changes that.\<close>

definition wf_pool :: "pool \<Rightarrow> bool" where
  "wf_pool st \<longleftrightarrow>
     length (mysql_conns st) = DB_POOL_CONN_COUNT \<and>
     length (mysql_conns_busy st) = DB_POOL_CONN_COUNT"

text \<open>
  A call either comes back with a value and the variables as it left them, or hangs in a
  \<open>sem_wait\<close> with the variables as they were when it began to wait.
\<close>

datatype 'a outcome = Returns 'a pool | Blocks pool

fun pool_of :: "'a outcome \<Rightarrow> pool" where
  "pool_of (Returns r st) = st"
| "pool_of (Blocks st) = st"

text \<open>\<open>sem_post\<close>: one more permit, unless the call fails.\<close>

definition sem_post :: "bool \<Rightarrow> pool \<Rightarrow> pool" where
  "sem_post ok st = (if ok then st\<lparr>db_sem := db_sem st + 1\<rparr> else st)"

subsection \<open>db_error\<close>

definition db_error :: "bool \<Rightarrow> pool \<Rightarrow> errmsg" where
  "db_error rdlock_ok st =
     (case err_last st of
        Some e \<Rightarrow> e
      | None \<Rightarrow>
          if is_thread_safe st = 0 then err_not_thread_safe
          else if is_inited st = 0 then err_not_inited
          else if \<not> rdlock_ok then err_rwlock
          else if is_open st = 0 then err_not_open
          else err_unknown)"

subsection \<open>db_post_conn\<close>

record post_env =
  post_mutex_lock_ok :: bool
  post_sem_post_ok :: bool

text \<open>
  The scan of \<open>db_post_conn\<close> from index \<open>i\<close>: the first slot whose flag is non-zero gets
  the returned pointer and a flag of 0. The result also carries \<open>found\<close>.
\<close>

function post_scan :: "conn option \<Rightarrow> nat \<Rightarrow> pool \<Rightarrow> bool \<times> pool" where
  "post_scan mysql_conn i st =
     (if i < DB_POOL_CONN_COUNT then
        (if mysql_conns_busy st ! i \<noteq> 0 then
           (True, st\<lparr>mysql_conns := (mysql_conns st)[i := mysql_conn],
                     mysql_conns_busy := (mysql_conns_busy st)[i := 0]\<rparr>)
         else post_scan mysql_conn (i + 1) st)
      else (False, st))"
  by pat_completeness auto
termination
  by (relation "measure (\<lambda>(c, i, st). DB_POOL_CONN_COUNT - i)") auto

definition db_post_conn :: "post_env \<Rightarrow> conn option \<Rightarrow> pool \<Rightarrow> int \<times> pool" where
  "db_post_conn env mysql_conn st =
     (if is_inited st = 0 then (- 1, st\<lparr>err_last := Some err_init\<rparr>)
      else if mysql_conn = None then (- 1, st\<lparr>err_last := Some err_input\<rparr>)
      else if \<not> post_mutex_lock_ok env then (- 1, st\<lparr>err_last := Some err_mutex\<rparr>)
      else
        (case post_scan mysql_conn 0 st of
           (False, st1) \<Rightarrow> (- 1, st1\<lparr>err_last := Some err_no_busy_slot_bug\<rparr>)
         | (True, st1) \<Rightarrow>
             if \<not> post_sem_post_ok env then (- 1, st1\<lparr>err_last := Some err_semaphore_post\<rparr>)
             else (0, sem_post True st1)))"

subsection \<open>db_get_conn\<close>

text \<open>
  \<open>get_rdlock_ok n\<close> answers the \<open>n\<close>-th \<open>pthread_rwlock_rdlock\<close> of the call (0 or 1).
  \<open>get_clock_gettime\<close> is \<open>None\<close> when \<open>clock_gettime\<close> fails, else the \<open>tv_sec\<close> it
  stored. \<open>get_mutex_timedlock t\<close> says whether \<open>pthread_mutex_timedlock\<close> obtains the
  mutex when given the absolute deadline \<open>t\<close> (seconds). With one thread running, the second
  test of \<open>is_open\<close> reads what the first one read; it is kept where the source has it.
\<close>

record get_env =
  get_rdlock_ok :: "nat \<Rightarrow> bool"
  get_sem_wait_ok :: bool
  get_clock_gettime :: "time_t option"
  get_mutex_timedlock :: "time_t \<Rightarrow> bool"
  get_sem_post_ok :: bool

text \<open>
  The scan of \<open>db_get_conn\<close> from index \<open>i\<close>: the first slot whose flag is 0 gets the
  flag 1 and its pointer becomes the local \<open>mysql_conn\<close>, which starts as the null pointer.
\<close>

function get_scan :: "nat \<Rightarrow> pool \<Rightarrow> conn option \<times> pool" where
  "get_scan i st =
     (if i < DB_POOL_CONN_COUNT then
        (if mysql_conns_busy st ! i = 0 then
           (mysql_conns st ! i, st\<lparr>mysql_conns_busy := (mysql_conns_busy st)[i := 1]\<rparr>)
         else get_scan (i + 1) st)
      else (None, st))"
  by pat_completeness auto
termination
  by (relation "measure (\<lambda>(i, st). DB_POOL_CONN_COUNT - i)") auto

definition db_get_conn :: "get_env \<Rightarrow> pool \<Rightarrow> conn option outcome" where
  "db_get_conn env st =
     (if is_inited st = 0 then Returns None (st\<lparr>err_last := Some err_init\<rparr>)
      else if \<not> get_rdlock_ok env 0 then Returns None (st\<lparr>err_last := Some err_rwlock\<rparr>)
      else if is_open st = 0 then Returns None (st\<lparr>err_last := Some err_not_open\<rparr>)
      else if \<not> get_sem_wait_ok env then
        Returns None (st\<lparr>err_last := Some err_semaphore_wait\<rparr>)
      else if db_sem st = 0 then Blocks st
      else
        (let st1 = st\<lparr>db_sem := db_sem st - 1\<rparr> in
         case get_clock_gettime env of
           None \<Rightarrow>
             Returns None
               (sem_post (get_sem_post_ok env) (st1\<lparr>err_last := Some err_clock_gettime\<rparr>))
         | Some tv_sec \<Rightarrow>
             if \<not> get_mutex_timedlock env (mutex_deadline tv_sec) then
               Returns None (sem_post (get_sem_post_ok env) (st1\<lparr>err_last := Some err_mutex\<rparr>))
             else if \<not> get_rdlock_ok env 1 then
               Returns None (st1\<lparr>err_last := Some err_rwlock\<rparr>)
             else if is_open st1 = 0 then
               Returns None
                 (sem_post (get_sem_post_ok env) (st1\<lparr>err_last := Some err_not_open\<rparr>))
             else
               (case get_scan 0 st1 of
                  (None, st2) \<Rightarrow>
                    Returns None
                      (sem_post (get_sem_post_ok env)
                         (st2\<lparr>err_last := Some err_no_free_slot_bug\<rparr>))
                | (Some c, st2) \<Rightarrow> Returns (Some c) st2)))"

subsection \<open>db_close\<close>

text \<open>
  \<open>close_mutex_lock_ok n\<close> answers the \<open>n\<close>-th \<open>pthread_mutex_lock\<close> of the call and
  \<open>close_sem_wait_ok k\<close> the \<open>k\<close>-th \<open>sem_wait\<close>, both counted from 0.
\<close>

record close_env =
  close_wrlock_ok :: bool
  close_mutex_lock_ok :: "nat \<Rightarrow> bool"
  close_sem_wait_ok :: "nat \<Rightarrow> bool"

text \<open>
  The two nested loops of \<open>db_close\<close>, at slot \<open>i\<close> of the current pass, after \<open>n\<close>
  mutex locks and \<open>k\<close> semaphore waits. A flag equal to 1 makes the call take a permit and
  start the pass again at slot 0; a pass that reaches the end of the array ends the loops.
\<close>

function close_wait :: "close_env \<Rightarrow> nat \<Rightarrow> nat \<Rightarrow> nat \<Rightarrow> pool \<Rightarrow> int outcome" where
  "close_wait env n k i st =
     (if i < DB_POOL_CONN_COUNT then
        (if \<not> close_mutex_lock_ok env n then Returns (- 1) (st\<lparr>err_last := Some err_mutex\<rparr>)
         else if mysql_conns_busy st ! i = 1 then
           (if \<not> close_sem_wait_ok env k then
              Returns (- 1) (st\<lparr>err_last := Some err_semaphore_wait\<rparr>)
            else if db_sem st = 0 then Blocks st
            else close_wait env (n + 1) (k + 1) 0 (st\<lparr>db_sem := db_sem st - 1\<rparr>))
         else close_wait env (n + 1) k (i + 1) st)
      else Returns 0 st)"
  by pat_completeness auto
termination
  by (relation "measures [\<lambda>(env, n, k, i, st). db_sem st,
                          \<lambda>(env, n, k, i, st). DB_POOL_CONN_COUNT - i]") auto

definition db_close :: "close_env \<Rightarrow> pool \<Rightarrow> int outcome" where
  "db_close env st =
     (if is_inited st = 0 then Returns (- 1) (st\<lparr>err_last := Some err_init\<rparr>)
      else if \<not> close_wrlock_ok env then Returns (- 1) (st\<lparr>err_last := Some err_rwlock\<rparr>)
      else if is_closed st \<noteq> 0 then Returns 0 st
      else close_wait env 0 0 0 (st\<lparr>is_open := 0, is_closed := 1\<rparr>))"

subsection \<open>db_open\<close>

text \<open>
  What the four calls that create one connection do: \<open>mysql_init\<close> returns the null pointer,
  or it returns an object at the given address and then \<open>mysql_options\<close>,
  \<open>mysql_real_connect\<close> or \<open>mysql_autocommit\<close> fails, or all four succeed.
\<close>

datatype connect_result =
    Init_failed
  | Options_failed conn
  | Real_connect_failed conn
  | Autocommit_failed conn
  | Connected conn

text \<open>What \<open>mysql_init\<close> stored in the slot.\<close>

fun init_ptr :: "connect_result \<Rightarrow> conn option" where
  "init_ptr Init_failed = None"
| "init_ptr (Options_failed a) = Some a"
| "init_ptr (Real_connect_failed a) = Some a"
| "init_ptr (Autocommit_failed a) = Some a"
| "init_ptr (Connected a) = Some a"

fun is_connected :: "connect_result \<Rightarrow> bool" where
  "is_connected (Connected a) = True"
| "is_connected _ = False"

text \<open>
  \<open>open_connect i\<close> is the result of creating the connection for slot \<open>i\<close> and
  \<open>open_ping_ok i\<close> the answer of \<open>mysql_ping\<close> on the connection found in slot \<open>i\<close>; a
  call of \<open>db_open\<close> does at most one of the two per slot.
\<close>

record open_env =
  open_thread_safe :: bool
  open_library_init_ok :: bool
  open_mutex_init_ok :: bool
  open_rwlock_init_ok :: bool
  open_sem_init_ok :: bool
  open_mutex_lock_ok :: bool
  open_connect :: "nat \<Rightarrow> connect_result"
  open_ping_ok :: "nat \<Rightarrow> bool"
  open_wrlock_ok :: bool

text \<open>The one-time initialisation; \<open>Inl\<close> is the early \<open>return -1\<close>.\<close>

definition open_init :: "open_env \<Rightarrow> pool \<Rightarrow> pool + pool" where
  "open_init env st =
     (if is_inited st = 0 then
        (if \<not> open_thread_safe env then Inl (st\<lparr>is_thread_safe := 0\<rparr>)
         else
           (let st1 = st\<lparr>is_thread_safe := 1\<rparr> in
            if \<not> open_library_init_ok env then Inl (st1\<lparr>err_last := Some err_init_lib\<rparr>)
            else if \<not> open_mutex_init_ok env then Inl (st1\<lparr>err_last := Some err_init_mutex\<rparr>)
            else if \<not> open_rwlock_init_ok env then Inl (st1\<lparr>err_last := Some err_init_rwlock\<rparr>)
            else if \<not> open_sem_init_ok env then
              Inl (st1\<lparr>err_last := Some err_init_semaphore\<rparr>)
            else Inr (st1\<lparr>db_sem := DB_POOL_CONN_COUNT, is_inited := 1\<rparr>)))
      else Inr st)"

text \<open>One step of the inner \<open>for (;;)\<close>: close the connection of slot \<open>i\<close>, if any.\<close>

definition close_slot :: "nat \<Rightarrow> pool \<Rightarrow> pool" where
  "close_slot i st =
     (case mysql_conns st ! i of
        None \<Rightarrow> st
      | Some c \<Rightarrow> st\<lparr>mysql_conns := (mysql_conns st)[i := None],
                      mysql_closed := c # mysql_closed st\<rparr>)"

text \<open>The inner \<open>for (;;)\<close>: slots \<open>i\<close>, \<open>i - 1\<close>, ..., 0.\<close>

fun close_down :: "nat \<Rightarrow> pool \<Rightarrow> pool" where
  "close_down 0 st = close_slot 0 st"
| "close_down (Suc i) st = close_down i (close_slot (Suc i) st)"

datatype fill_result = Fill_ok | Fill_connect_failed | Fill_reconnect_failed

text \<open>The \<open>for\<close> loop over the slots, from slot \<open>i\<close>.\<close>

function fill_slots :: "open_env \<Rightarrow> nat \<Rightarrow> pool \<Rightarrow> fill_result \<times> pool" where
  "fill_slots env i st =
     (if i < DB_POOL_CONN_COUNT then
        (case mysql_conns st ! i of
           None \<Rightarrow>
             (let st1 = st\<lparr>mysql_conns := (mysql_conns st)[i := init_ptr (open_connect env i)]\<rparr>
              in if \<not> is_connected (open_connect env i)
                 then (Fill_connect_failed, close_down i st1)
                 else fill_slots env (i + 1) st1)
         | Some c \<Rightarrow>
             if \<not> open_ping_ok env i then (Fill_reconnect_failed, st)
             else fill_slots env (i + 1) st)
      else (Fill_ok, st))"
  by pat_completeness auto
termination
  by (relation "measure (\<lambda>(env, i, st). DB_POOL_CONN_COUNT - i)") auto

definition db_open :: "open_env \<Rightarrow> pool \<Rightarrow> int \<times> pool" where
  "db_open env st =
     (case open_init env st of
        Inl st0 \<Rightarrow> (- 1, st0)
      | Inr st0 \<Rightarrow>
          if \<not> open_mutex_lock_ok env then (- 1, st0\<lparr>err_last := Some err_mutex\<rparr>)
          else
            (case fill_slots env 0 st0 of
               (Fill_connect_failed, st1) \<Rightarrow> (- 1, st1\<lparr>err_last := Some err_connect\<rparr>)
             | (Fill_reconnect_failed, st1) \<Rightarrow> (- 1, st1\<lparr>err_last := Some err_reconnect\<rparr>)
             | (Fill_ok, st1) \<Rightarrow>
                 if \<not> open_wrlock_ok env then (- 1, st1\<lparr>err_last := Some err_rwlock\<rparr>)
                 else (0, st1\<lparr>is_open := 1, is_closed := 0\<rparr>)))"

subsection \<open>Sequences of calls\<close>

datatype api_call =
    Call_db_open open_env
  | Call_db_close close_env
  | Call_db_get_conn get_env
  | Call_db_post_conn post_env "conn option"

fun is_open_or_close :: "api_call \<Rightarrow> bool" where
  "is_open_or_close (Call_db_open env) = True"
| "is_open_or_close (Call_db_close env) = True"
| "is_open_or_close _ = False"

fun is_get_or_post :: "api_call \<Rightarrow> bool" where
  "is_get_or_post (Call_db_get_conn env) = True"
| "is_get_or_post (Call_db_post_conn env c) = True"
| "is_get_or_post _ = False"

fun forget :: "'a outcome \<Rightarrow> unit outcome" where
  "forget (Returns r st) = Returns () st"
| "forget (Blocks st) = Blocks st"

fun api_step :: "api_call \<Rightarrow> pool \<Rightarrow> unit outcome" where
  "api_step (Call_db_open env) st = Returns () (snd (db_open env st))"
| "api_step (Call_db_close env) st = forget (db_close env st)"
| "api_step (Call_db_get_conn env) st = forget (db_get_conn env st)"
| "api_step (Call_db_post_conn env c) st = Returns () (snd (db_post_conn env c st))"

text \<open>
  One thread making the calls one after the other: the variables after the last call, or
  as they stand while the first call that hangs is waiting.
\<close>

fun run_calls :: "api_call list \<Rightarrow> pool \<Rightarrow> pool" where
  "run_calls [] st = st"
| "run_calls (c # cs) st =
     (case api_step c st of
        Returns u st' \<Rightarrow> run_calls cs st'
      | Blocks st' \<Rightarrow> st')"

text \<open>The number of slots whose busy flag is set.\<close>

definition busy_count :: "pool \<Rightarrow> int" where
  "busy_count st = int (length (filter (\<lambda>b. b \<noteq> 0) (mysql_conns_busy st)))"

text \<open>
  A sequence of \<open>db_get_conn\<close> and \<open>db_post_conn\<close> calls that respects the loan
  discipline, with the handles that are out: \<open>db_get_conn\<close> adds the handle it returns, and
  \<open>db_post_conn\<close> is called only on a handle that is out, which then is out no more. The
  result is \<open>None\<close> where the sequence breaks the discipline or makes another call.
\<close>

fun run_loans :: "api_call list \<Rightarrow> pool \<Rightarrow> conn list \<Rightarrow> (pool \<times> conn list) option" where
  "run_loans [] st held = Some (st, held)"
| "run_loans (Call_db_get_conn env # cs) st held =
     (case db_get_conn env st of
        Returns (Some c) st' \<Rightarrow> run_loans cs st' (c # held)
      | Returns None st' \<Rightarrow> run_loans cs st' held
      | Blocks st' \<Rightarrow> Some (st', held))"
| "run_loans (Call_db_post_conn env h # cs) st held =
     (case h of
        None \<Rightarrow> None
      | Some c \<Rightarrow>
          if c \<in> set held then run_loans cs (snd (db_post_conn env h st)) (remove1 c held)
          else None)"
| "run_loans (c # cs) st held = None"

subsection \<open>The precedence of the specification for the diagnostic\<close>

text \<open>
  This definition follows the words of the specification, not the source: the sticky error,
  else not-thread-safe, else not-initialized, else not-open, else unknown.
\<close>

definition last_error_precedence :: "pool \<Rightarrow> errmsg" where
  "last_error_precedence st =
     (case err_last st of
        Some sticky \<Rightarrow> sticky
      | None \<Rightarrow>
          if is_thread_safe st = 0 then err_not_thread_safe
          else if is_inited st = 0 then err_not_inited
          else if is_open st = 0 then err_not_open
          else err_unknown)"

subsection \<open>Concrete environments and pools\<close>

text \<open>Environments in which every outside call succeeds; slot \<open>i\<close> gets address \<open>100 + i\<close>.\<close>

definition ok_open_env :: open_env where
  "ok_open_env =
     \<lparr> open_thread_safe = True, open_library_init_ok = True, open_mutex_init_ok = True,
       open_rwlock_init_ok = True, open_sem_init_ok = True, open_mutex_lock_ok = True,
       open_connect = (\<lambda>i. Connected (100 + i)), open_ping_ok = (\<lambda>i. True),
       open_wrlock_ok = True \<rparr>"

definition ok_get_env :: get_env where
  "ok_get_env =
     \<lparr> get_rdlock_ok = (\<lambda>n. True), get_sem_wait_ok = True, get_clock_gettime = Some 1000,
       get_mutex_timedlock = (\<lambda>t. True), get_sem_post_ok = True \<rparr>"

definition ok_close_env :: close_env where
  "ok_close_env =
     \<lparr> close_wrlock_ok = True, close_mutex_lock_ok = (\<lambda>n. True),
       close_sem_wait_ok = (\<lambda>k. True) \<rparr>"

definition ok_post_env :: post_env where
  "ok_post_env = \<lparr> post_mutex_lock_ok = True, post_sem_post_ok = True \<rparr>"

text \<open>The pool after a first \<open>db_open\<close> in which everything succeeded.\<close>

definition open_pool :: pool where
  "open_pool =
     \<lparr> err_last = None,
       db_sem = 8,
       mysql_conns =
         [Some 100, Some 101, Some 102, Some 103, Some 104, Some 105, Some 106, Some 107],
       mysql_conns_busy = [0, 0, 0, 0, 0, 0, 0, 0],
       is_thread_safe = 1,
       is_inited = 1,
       is_open = 1,
       is_closed = 0,
       mysql_closed = [] \<rparr>"

text \<open>The open pool after two \<open>db_get_conn\<close>: slot 0 lent 100 and slot 1 lent 101.\<close>

definition two_lent_pool :: pool where
  "two_lent_pool = open_pool\<lparr>db_sem := 6, mysql_conns_busy := [1, 1, 0, 0, 0, 0, 0, 0]\<rparr>"

text \<open>The same pool after \<open>db_post_conn\<close> of 100: slot 0 is free again, slot 1 still lent.\<close>

definition slot1_lent_pool :: pool where
  "slot1_lent_pool = open_pool\<lparr>db_sem := 7, mysql_conns_busy := [0, 1, 0, 0, 0, 0, 0, 0]\<rparr>"

text \<open>The open pool after eight \<open>db_get_conn\<close>: no permit is left.\<close>

definition all_lent_pool :: pool where
  "all_lent_pool = open_pool\<lparr>db_sem := 0, mysql_conns_busy := [1, 1, 1, 1, 1, 1, 1, 1]\<rparr>"

text \<open>An open pool whose slot 0 is free and holds the null pointer.\<close>

definition null_slot_pool :: pool where
  "null_slot_pool =
     open_pool\<lparr>mysql_conns :=
       [None, Some 101, Some 102, Some 103, Some 104, Some 105, Some 106, Some 107]\<rparr>"

text \<open>The open pool after a \<open>db_close\<close> that found no slot busy.\<close>

definition closed_pool :: pool where
  "closed_pool = open_pool\<lparr>is_open := 0, is_closed := 1\<rparr>"

text \<open>
  An environment for \<open>db_open\<close> in which \<open>mysql_real_connect\<close> fails for slot 2, the third
  slot, and everything else succeeds.
\<close>

definition third_connect_fails_env :: open_env where
  "third_connect_fails_env =
     ok_open_env\<lparr>open_connect :=
       (\<lambda>i. if i = 2 then Real_connect_failed 102 else Connected (100 + i))\<rparr>"

text \<open>For \<open>db_get_conn\<close>: the second \<open>pthread_rwlock_rdlock\<close> fails, all else succeeds.\<close>

definition second_rdlock_fails_env :: get_env where
  "second_rdlock_fails_env = ok_get_env\<lparr>get_rdlock_ok := (\<lambda>n. n = 0)\<rparr>"

text \<open>
  For \<open>db_get_conn\<close>: the clock reads 1000 and \<open>pthread_mutex_timedlock\<close> does not get the
  mutex by the deadline 1030; all else succeeds.
\<close>

definition timedlock_fails_env :: get_env where
  "timedlock_fails_env = ok_get_env\<lparr>get_mutex_timedlock := (\<lambda>t. t \<noteq> 1030)\<rparr>"

text \<open>
  For \<open>db_get_conn\<close>: the clock reads the largest \<open>time_t\<close>, and
  \<open>pthread_mutex_timedlock\<close> gets the mutex only when the deadline is not before the clock
  reading; all else succeeds.
\<close>

definition top_of_time_env :: get_env where
  "top_of_time_env =
     ok_get_env\<lparr>get_clock_gettime := Some 9223372036854775807,
                get_mutex_timedlock := (\<lambda>t. sint (9223372036854775807 :: time_t) \<le> sint t)\<rparr>"

subsection \<open>An invariant of the slot array\<close>

text \<open>Both arrays have their length, and no slot of an open pool holds the null pointer.\<close>

definition slots_filled_when_open :: "pool \<Rightarrow> bool" where
  "slots_filled_when_open st \<longleftrightarrow>
     wf_pool st \<and> (is_open st = 0 \<or> None \<notin> set (mysql_conns st))"

section \<open>Properties\<close>

subsection \<open>The loops\<close>

text \<open>The loops are unfolded one step at a time, by \<open>subst\<close>, never by the simplifier alone.\<close>

declare post_scan.simps [simp del]
declare get_scan.simps [simp del]
declare close_wait.simps [simp del]
declare fill_slots.simps [simp del]

lemma close_slot_length [simp]:
  "length (mysql_conns (close_slot i st)) = length (mysql_conns st)"
  by (simp add: close_slot_def split: option.splits)

lemma close_slot_frame [simp]:
  "mysql_conns_busy (close_slot i st) = mysql_conns_busy st"
  "is_open (close_slot i st) = is_open st"
  "is_closed (close_slot i st) = is_closed st"
  "is_inited (close_slot i st) = is_inited st"
  "is_thread_safe (close_slot i st) = is_thread_safe st"
  "db_sem (close_slot i st) = db_sem st"
  "err_last (close_slot i st) = err_last st"
  by (simp_all add: close_slot_def split: option.splits)

lemma close_slot_same:
  "i < length (mysql_conns st) \<Longrightarrow> mysql_conns (close_slot i st) ! i = None"
  by (simp add: close_slot_def split: option.splits)

lemma close_slot_other:
  "j \<noteq> i \<Longrightarrow> mysql_conns (close_slot i st) ! j = mysql_conns st ! j"
  by (simp add: close_slot_def split: option.splits)

lemma close_slot_closed_mono:
  "c \<in> set (mysql_closed st) \<Longrightarrow> c \<in> set (mysql_closed (close_slot i st))"
  by (simp add: close_slot_def split: option.splits)

lemma close_slot_closes:
  "mysql_conns st ! i = Some c \<Longrightarrow> c \<in> set (mysql_closed (close_slot i st))"
  by (simp add: close_slot_def)

lemma close_down_length [simp]:
  "length (mysql_conns (close_down i st)) = length (mysql_conns st)"
  by (induction i arbitrary: st) simp_all

lemma close_down_frame [simp]:
  "mysql_conns_busy (close_down i st) = mysql_conns_busy st"
  "is_open (close_down i st) = is_open st"
  "is_closed (close_down i st) = is_closed st"
  "is_inited (close_down i st) = is_inited st"
  "is_thread_safe (close_down i st) = is_thread_safe st"
  "db_sem (close_down i st) = db_sem st"
  "err_last (close_down i st) = err_last st"
  by (induction i arbitrary: st) simp_all

lemma close_down_above:
  "i < j \<Longrightarrow> mysql_conns (close_down i st) ! j = mysql_conns st ! j"
  by (induction i arbitrary: st) (simp_all add: close_slot_other)

lemma close_down_closed_mono:
  "c \<in> set (mysql_closed st) \<Longrightarrow> c \<in> set (mysql_closed (close_down i st))"
  by (induction i arbitrary: st) (simp_all add: close_slot_closed_mono)

lemma close_down_clears:
  "i < length (mysql_conns st) \<Longrightarrow> j \<le> i \<Longrightarrow> mysql_conns (close_down i st) ! j = None"
proof (induction i arbitrary: st)
  case 0
  then show ?case by (simp add: close_slot_same)
next
  case (Suc i)
  show ?case
  proof (cases "j = Suc i")
    case True
    then show ?thesis
      using Suc.prems by (simp add: close_down_above close_slot_same)
  next
    case False
    with Suc.prems have "j \<le> i" by simp
    moreover have "i < length (mysql_conns (close_slot (Suc i) st))"
      using Suc.prems by simp
    ultimately show ?thesis
      using Suc.IH by simp
  qed
qed

lemma close_down_closes:
  "j \<le> i \<Longrightarrow> mysql_conns st ! j = Some c \<Longrightarrow> c \<in> set (mysql_closed (close_down i st))"
proof (induction i arbitrary: st)
  case 0
  then show ?case by (simp add: close_slot_closes)
next
  case (Suc i)
  show ?case
  proof (cases "j = Suc i")
    case True
    with Suc.prems have "c \<in> set (mysql_closed (close_slot (Suc i) st))"
      by (simp add: close_slot_closes)
    then show ?thesis by (simp add: close_down_closed_mono)
  next
    case False
    with Suc.prems have "j \<le> i" by simp
    moreover from False Suc.prems have "mysql_conns (close_slot (Suc i) st) ! j = Some c"
      by (simp add: close_slot_other)
    ultimately show ?thesis
      using Suc.IH by simp
  qed
qed

lemma fill_slots_connect_failed:
  assumes "k \<le> i" and "i < DB_POOL_CONN_COUNT"
    and "length (mysql_conns st) = DB_POOL_CONN_COUNT"
    and "\<forall>j. k \<le> j \<and> j < i \<longrightarrow> mysql_conns st ! j = None \<and> is_connected (open_connect env j)"
    and "mysql_conns st ! i = None"
    and "\<not> is_connected (open_connect env i)"
  shows "\<exists>cs. fill_slots env k st = (Fill_connect_failed, close_down i (st\<lparr>mysql_conns := cs\<rparr>))
           \<and> length cs = DB_POOL_CONN_COUNT
           \<and> (\<forall>j. k \<le> j \<and> j < i \<longrightarrow> cs ! j = init_ptr (open_connect env j))
           \<and> (\<forall>j < k. cs ! j = mysql_conns st ! j)"
  using assms
proof (induction "i - k" arbitrary: k st)
  case 0
  then have ki: "k = i" by simp
  let ?cs = "(mysql_conns st)[i := init_ptr (open_connect env i)]"
  have "fill_slots env k st = (Fill_connect_failed, close_down i (st\<lparr>mysql_conns := ?cs\<rparr>))"
    using 0 ki by (subst fill_slots.simps) simp
  moreover have "length ?cs = DB_POOL_CONN_COUNT" using 0 by simp
  moreover have "\<forall>j < k. ?cs ! j = mysql_conns st ! j" using ki by simp
  ultimately show ?case using ki by auto
next
  case (Suc d)
  then have lt: "k < i" by simp
  let ?st1 = "st\<lparr>mysql_conns := (mysql_conns st)[k := init_ptr (open_connect env k)]\<rparr>"
  from Suc.prems lt have kk: "mysql_conns st ! k = None" "is_connected (open_connect env k)"
    by auto
  have step: "fill_slots env k st = fill_slots env (k + 1) ?st1"
    using Suc.prems lt kk by (subst fill_slots.simps) simp
  have "\<exists>cs. fill_slots env (k + 1) ?st1
            = (Fill_connect_failed, close_down i (?st1\<lparr>mysql_conns := cs\<rparr>))
           \<and> length cs = DB_POOL_CONN_COUNT
           \<and> (\<forall>j. k + 1 \<le> j \<and> j < i \<longrightarrow> cs ! j = init_ptr (open_connect env j))
           \<and> (\<forall>j < k + 1. cs ! j = mysql_conns ?st1 ! j)"
  proof (rule Suc.hyps(1))
    show "d = i - (k + 1)" using Suc.hyps(2) by simp
    show "k + 1 \<le> i" using lt by simp
    show "i < DB_POOL_CONN_COUNT" by (rule Suc.prems(2))
    show "length (mysql_conns ?st1) = DB_POOL_CONN_COUNT" using Suc.prems(3) by simp
    show "\<forall>j. k + 1 \<le> j \<and> j < i \<longrightarrow>
            mysql_conns ?st1 ! j = None \<and> is_connected (open_connect env j)"
      using Suc.prems(4) by simp
    show "mysql_conns ?st1 ! i = None" using Suc.prems(5) lt by simp
    show "\<not> is_connected (open_connect env i)" by (rule Suc.prems(6))
  qed
  then obtain cs where cs:
    "fill_slots env (k + 1) ?st1 = (Fill_connect_failed, close_down i (?st1\<lparr>mysql_conns := cs\<rparr>))"
    "length cs = DB_POOL_CONN_COUNT"
    "\<forall>j. k + 1 \<le> j \<and> j < i \<longrightarrow> cs ! j = init_ptr (open_connect env j)"
    "\<forall>j < k + 1. cs ! j = mysql_conns ?st1 ! j"
    by blast
  have a: "fill_slots env k st = (Fill_connect_failed, close_down i (st\<lparr>mysql_conns := cs\<rparr>))"
    using step cs(1) by simp
  have kslot: "cs ! k = init_ptr (open_connect env k)"
    using cs(4) Suc.prems(2,3) lt by simp
  have b: "\<forall>j. k \<le> j \<and> j < i \<longrightarrow> cs ! j = init_ptr (open_connect env j)"
  proof (intro allI impI)
    fix j assume "k \<le> j \<and> j < i"
    then show "cs ! j = init_ptr (open_connect env j)"
      using cs(3) kslot by (cases "j = k") auto
  qed
  have c: "\<forall>j < k. cs ! j = mysql_conns st ! j"
    using cs(4) by simp
  from a cs(2) b c show ?case by blast
qed

lemma open_init_frame:
  assumes "open_init env st = Inr st0"
  shows "mysql_conns st0 = mysql_conns st" "mysql_conns_busy st0 = mysql_conns_busy st"
    "is_open st0 = is_open st" "is_closed st0 = is_closed st" "mysql_closed st0 = mysql_closed st"
  using assms by (auto simp: open_init_def Let_def split: if_splits)

lemma open_init_succeeds:
  assumes "is_inited st \<noteq> 0 \<or>
      (open_thread_safe env \<and> open_library_init_ok env \<and> open_mutex_init_ok env \<and>
       open_rwlock_init_ok env \<and> open_sem_init_ok env)"
  shows "\<exists>st0. open_init env st = Inr st0"
  using assms by (auto simp: open_init_def Let_def)

subsection \<open>db_open: a connection that cannot be created\<close>

text \<open>
  Claim C5. Let \<open>db_open\<close> get past its one-time initialisation and the mutex, let slots
  \<open>0..i-1\<close> be empty and be filled in this pass, and let the creation of the connection for
  the empty slot \<open>i\<close> fail at any of its four calls. Then \<open>db_open\<close> returns -1; every slot
  \<open>j < i\<close> holds the null pointer again and the connection created for it was handed to
  \<open>mysql_close\<close>; \<open>is_open\<close> and \<open>is_closed\<close> are as before the call; and \<open>db_error\<close>
  gives \<open>err_connect\<close>.
\<close>

theorem db_open_connect_failure_rolls_back:
  assumes init: "is_inited st \<noteq> 0 \<or>
      (open_thread_safe env \<and> open_library_init_ok env \<and> open_mutex_init_ok env \<and>
       open_rwlock_init_ok env \<and> open_sem_init_ok env)"
    and lock: "open_mutex_lock_ok env"
    and len: "length (mysql_conns st) = DB_POOL_CONN_COUNT"
    and i: "i < DB_POOL_CONN_COUNT"
    and before: "\<forall>j<i. mysql_conns st ! j = None \<and> is_connected (open_connect env j)"
    and slot: "mysql_conns st ! i = None"
    and fails: "\<not> is_connected (open_connect env i)"
  shows "fst (db_open env st) = - 1
    \<and> (\<forall>j<i. mysql_conns (snd (db_open env st)) ! j = None
          \<and> (\<forall>a. open_connect env j = Connected a
                \<longrightarrow> a \<in> set (mysql_closed (snd (db_open env st)))))
    \<and> is_open (snd (db_open env st)) = is_open st
    \<and> is_closed (snd (db_open env st)) = is_closed st
    \<and> db_error rdlock_ok (snd (db_open env st)) = err_connect"
proof -
  from open_init_succeeds [OF init] obtain st0 where st0: "open_init env st = Inr st0" ..
  note fr = open_init_frame [OF st0]
  have "\<exists>cs. fill_slots env 0 st0 = (Fill_connect_failed, close_down i (st0\<lparr>mysql_conns := cs\<rparr>))
           \<and> length cs = DB_POOL_CONN_COUNT
           \<and> (\<forall>j. 0 \<le> j \<and> j < i \<longrightarrow> cs ! j = init_ptr (open_connect env j))
           \<and> (\<forall>j < 0. cs ! j = mysql_conns st0 ! j)"
    using i len before slot fails by (intro fill_slots_connect_failed) (simp_all add: fr)
  then obtain cs where cs:
    "fill_slots env 0 st0 = (Fill_connect_failed, close_down i (st0\<lparr>mysql_conns := cs\<rparr>))"
    "length cs = DB_POOL_CONN_COUNT"
    "\<forall>j<i. cs ! j = init_ptr (open_connect env j)"
    by auto
  let ?st1 = "st0\<lparr>mysql_conns := cs\<rparr>"
  have res: "db_open env st = (- 1, (close_down i ?st1)\<lparr>err_last := Some err_connect\<rparr>)"
    using st0 lock cs(1) by (simp add: db_open_def)
  have cleared: "mysql_conns (close_down i ?st1) ! j = None" if "j < i" for j
    using that cs(2) i by (intro close_down_clears) simp_all
  have destroyed: "a \<in> set (mysql_closed (close_down i ?st1))"
    if "j < i" and "open_connect env j = Connected a" for j a
  proof -
    from that cs(3) have "mysql_conns ?st1 ! j = Some a" by simp
    with that(1) show ?thesis by (intro close_down_closes [of j]) simp_all
  qed
  show ?thesis
    using cleared destroyed by (simp add: res db_error_def fr)
qed


theorem db_open_connect_failure_rolls_back_witness:
  "open_thread_safe third_connect_fails_env \<and> open_library_init_ok third_connect_fails_env
    \<and> open_mutex_init_ok third_connect_fails_env \<and> open_rwlock_init_ok third_connect_fails_env
    \<and> open_sem_init_ok third_connect_fails_env
    \<and> open_mutex_lock_ok third_connect_fails_env
    \<and> length (mysql_conns initial_pool) = DB_POOL_CONN_COUNT
    \<and> 2 < DB_POOL_CONN_COUNT
    \<and> mysql_conns initial_pool ! 0 = None
    \<and> open_connect third_connect_fails_env 0 = Connected 100
    \<and> mysql_conns initial_pool ! 1 = None
    \<and> open_connect third_connect_fails_env 1 = Connected 101
    \<and> mysql_conns initial_pool ! 2 = None
    \<and> \<not> is_connected (open_connect third_connect_fails_env 2)
    \<and> fst (db_open third_connect_fails_env initial_pool) = - 1
    \<and> mysql_conns (snd (db_open third_connect_fails_env initial_pool)) ! 0 = None
    \<and> 100 \<in> set (mysql_closed (snd (db_open third_connect_fails_env initial_pool)))
    \<and> mysql_conns (snd (db_open third_connect_fails_env initial_pool)) ! 1 = None
    \<and> 101 \<in> set (mysql_closed (snd (db_open third_connect_fails_env initial_pool)))
    \<and> is_open (snd (db_open third_connect_fails_env initial_pool)) = is_open initial_pool
    \<and> is_closed (snd (db_open third_connect_fails_env initial_pool)) = is_closed initial_pool
    \<and> db_error True (snd (db_open third_connect_fails_env initial_pool)) = err_connect"
proof -
  have e: "open_thread_safe third_connect_fails_env" "open_library_init_ok third_connect_fails_env"
    "open_mutex_init_ok third_connect_fails_env" "open_rwlock_init_ok third_connect_fails_env"
    "open_sem_init_ok third_connect_fails_env"
    by (simp_all add: third_connect_fails_env_def ok_open_env_def)
  then have h1: "is_inited initial_pool \<noteq> 0 \<or>
      (open_thread_safe third_connect_fails_env \<and> open_library_init_ok third_connect_fails_env \<and>
       open_mutex_init_ok third_connect_fails_env \<and> open_rwlock_init_ok third_connect_fails_env \<and>
       open_sem_init_ok third_connect_fails_env)"
    by simp
  have h2: "open_mutex_lock_ok third_connect_fails_env"
    by (simp add: third_connect_fails_env_def ok_open_env_def)
  have h3: "length (mysql_conns initial_pool) = DB_POOL_CONN_COUNT"
    by (simp add: initial_pool_def)
  have h4: "2 < DB_POOL_CONN_COUNT"
    by (simp add: DB_POOL_CONN_COUNT_def)
  have s0: "mysql_conns initial_pool ! 0 = None" "mysql_conns initial_pool ! 1 = None"
    by (simp_all add: initial_pool_def DB_POOL_CONN_COUNT_def)
  have c0: "open_connect third_connect_fails_env 0 = Connected 100"
    "open_connect third_connect_fails_env 1 = Connected 101"
    by (simp_all add: third_connect_fails_env_def ok_open_env_def)
  have h5: "\<forall>j<2. mysql_conns initial_pool ! j = None
           \<and> is_connected (open_connect third_connect_fails_env j)"
  proof (intro allI impI)
    fix j :: nat assume "j < 2"
    then have "j = 0 \<or> j = 1" by auto
    with s0 c0 show "mysql_conns initial_pool ! j = None
           \<and> is_connected (open_connect third_connect_fails_env j)"
      by auto
  qed
  have h6: "mysql_conns initial_pool ! 2 = None"
    by (simp add: initial_pool_def DB_POOL_CONN_COUNT_def)
  have h7: "\<not> is_connected (open_connect third_connect_fails_env 2)"
    by (simp add: third_connect_fails_env_def ok_open_env_def)
  note concl = db_open_connect_failure_rolls_back [OF h1 h2 h3 h4 h5 h6 h7, of True]
  have lt: "(0::nat) < 2" "(1::nat) < 2" by simp_all
  from concl lt c0 have r:
    "fst (db_open third_connect_fails_env initial_pool) = - 1"
    "mysql_conns (snd (db_open third_connect_fails_env initial_pool)) ! 0 = None"
    "100 \<in> set (mysql_closed (snd (db_open third_connect_fails_env initial_pool)))"
    "mysql_conns (snd (db_open third_connect_fails_env initial_pool)) ! 1 = None"
    "101 \<in> set (mysql_closed (snd (db_open third_connect_fails_env initial_pool)))"
    "is_open (snd (db_open third_connect_fails_env initial_pool)) = is_open initial_pool"
    "is_closed (snd (db_open third_connect_fails_env initial_pool)) = is_closed initial_pool"
    "db_error True (snd (db_open third_connect_fails_env initial_pool)) = err_connect"
    by blast+
  from e h2 h3 h4 s0 c0 h6 h7 r show ?thesis by blast
qed

text \<open>The whole result on that input: the three objects 102, 101, 100 were closed in this order.\<close>

lemma third_connect_fails_value:
   "db_open third_connect_fails_env initial_pool =
     (- 1, initial_pool\<lparr>err_last := Some err_connect, db_sem := 8, is_thread_safe := 1,
        is_inited := 1, mysql_closed := [100, 101, 102]\<rparr>)"
  by code_simp

subsection \<open>db_post_conn: the null pointer\<close>

text \<open>
  Claim C9. On an initialised pool, \<open>db_post_conn\<close> of the null pointer returns -1 with
  \<open>err_input\<close> as the last error; both slot arrays and the semaphore counter are as before.
\<close>

theorem db_post_conn_null_handle:
  assumes "is_inited st \<noteq> 0"
  shows "fst (db_post_conn env None st) = - 1
    \<and> err_last (snd (db_post_conn env None st)) = Some err_input
    \<and> mysql_conns (snd (db_post_conn env None st)) = mysql_conns st
    \<and> mysql_conns_busy (snd (db_post_conn env None st)) = mysql_conns_busy st
    \<and> db_sem (snd (db_post_conn env None st)) = db_sem st"
  using assms by (simp add: db_post_conn_def)

theorem db_post_conn_null_handle_witness:
  "is_inited two_lent_pool \<noteq> 0
    \<and> fst (db_post_conn ok_post_env None two_lent_pool) = - 1
    \<and> err_last (snd (db_post_conn ok_post_env None two_lent_pool)) = Some err_input
    \<and> mysql_conns (snd (db_post_conn ok_post_env None two_lent_pool)) = mysql_conns two_lent_pool
    \<and> mysql_conns_busy (snd (db_post_conn ok_post_env None two_lent_pool))
        = mysql_conns_busy two_lent_pool
    \<and> db_sem (snd (db_post_conn ok_post_env None two_lent_pool)) = db_sem two_lent_pool"
proof -
  have h: "is_inited two_lent_pool \<noteq> 0"
    by (simp add: two_lent_pool_def open_pool_def)
  from h db_post_conn_null_handle [OF h, of ok_post_env] show ?thesis by blast
qed

subsection \<open>The scans, and what each call leaves alone\<close>

lemma post_scan_found:
  assumes "i \<le> k" and "k < DB_POOL_CONN_COUNT" and "mysql_conns_busy st ! k \<noteq> 0"
    and "\<forall>j. i \<le> j \<and> j < k \<longrightarrow> mysql_conns_busy st ! j = 0"
  shows "post_scan c i st =
    (True, st\<lparr>mysql_conns := (mysql_conns st)[k := c],
              mysql_conns_busy := (mysql_conns_busy st)[k := 0]\<rparr>)"
  using assms
proof (induction "k - i" arbitrary: i)
  case 0
  then have "i = k" by simp
  with 0 show ?case by (subst post_scan.simps) simp
next
  case (Suc d)
  then have lt: "i < k" by simp
  with Suc.prems have "mysql_conns_busy st ! i = 0" by simp
  with Suc.prems lt have "post_scan c i st = post_scan c (i + 1) st"
    by (subst post_scan.simps) simp
  moreover have "post_scan c (i + 1) st =
    (True, st\<lparr>mysql_conns := (mysql_conns st)[k := c],
              mysql_conns_busy := (mysql_conns_busy st)[k := 0]\<rparr>)"
    using Suc.hyps(2) Suc.prems lt by (intro Suc.hyps(1)) simp_all
  ultimately show ?case by simp
qed

lemma post_scan_cases:
  "post_scan c i st = (False, st) \<or>
   (\<exists>k. i \<le> k \<and> k < DB_POOL_CONN_COUNT \<and>
        post_scan c i st =
          (True, st\<lparr>mysql_conns := (mysql_conns st)[k := c],
                    mysql_conns_busy := (mysql_conns_busy st)[k := 0]\<rparr>))"
proof (induction c i st rule: post_scan.induct)
  case (1 c i st)
  show ?case
  proof (cases "i < DB_POOL_CONN_COUNT")
    case False
    then show ?thesis by (subst post_scan.simps) simp
  next
    case True
    show ?thesis
    proof (cases "mysql_conns_busy st ! i \<noteq> 0")
      case busy: True
      have "post_scan c i st =
          (True, st\<lparr>mysql_conns := (mysql_conns st)[i := c],
                    mysql_conns_busy := (mysql_conns_busy st)[i := 0]\<rparr>)"
        using True busy by (subst post_scan.simps) simp
      with True show ?thesis by blast
    next
      case free: False
      have eq: "post_scan c i st = post_scan c (i + 1) st"
        using True free by (subst post_scan.simps) simp
      from "1.IH" [OF True] free
      have "post_scan c (i + 1) st = (False, st) \<or>
        (\<exists>k. i + 1 \<le> k \<and> k < DB_POOL_CONN_COUNT \<and>
          post_scan c (i + 1) st =
            (True, st\<lparr>mysql_conns := (mysql_conns st)[k := c],
                      mysql_conns_busy := (mysql_conns_busy st)[k := 0]\<rparr>))"
        by simp
      then show ?thesis
        unfolding eq by (metis Suc_eq_plus1 Suc_leD)
    qed
  qed
qed

lemma get_scan_cases:
  "get_scan i st = (None, st) \<or>
   (\<exists>k. i \<le> k \<and> k < DB_POOL_CONN_COUNT \<and> mysql_conns_busy st ! k = 0 \<and>
        get_scan i st =
          (mysql_conns st ! k, st\<lparr>mysql_conns_busy := (mysql_conns_busy st)[k := 1]\<rparr>))"
proof (induction i st rule: get_scan.induct)
  case (1 i st)
  show ?case
  proof (cases "i < DB_POOL_CONN_COUNT")
    case False
    then show ?thesis by (subst get_scan.simps) simp
  next
    case True
    show ?thesis
    proof (cases "mysql_conns_busy st ! i = 0")
      case free: True
      have "get_scan i st =
          (mysql_conns st ! i, st\<lparr>mysql_conns_busy := (mysql_conns_busy st)[i := 1]\<rparr>)"
        using True free by (subst get_scan.simps) simp
      with True free show ?thesis by blast
    next
      case busy: False
      have eq: "get_scan i st = get_scan (i + 1) st"
        using True busy by (subst get_scan.simps) simp
      from "1.IH" [OF True busy]
      show ?thesis
        unfolding eq by (metis Suc_eq_plus1 Suc_leD)
    qed
  qed
qed

lemma close_wait_frame:
  "mysql_conns (pool_of (close_wait env n k i st)) = mysql_conns st \<and>
   mysql_conns_busy (pool_of (close_wait env n k i st)) = mysql_conns_busy st \<and>
   mysql_closed (pool_of (close_wait env n k i st)) = mysql_closed st \<and>
   is_open (pool_of (close_wait env n k i st)) = is_open st \<and>
   is_closed (pool_of (close_wait env n k i st)) = is_closed st \<and>
   is_inited (pool_of (close_wait env n k i st)) = is_inited st"
proof (induction env n k i st rule: close_wait.induct)
  case (1 env n k i st)
  show ?case
    using "1.IH" by (subst (1 2 3 4 5 6) close_wait.simps) simp
qed

lemma fill_slots_frame:
  "mysql_conns_busy (snd (fill_slots env i st)) = mysql_conns_busy st \<and>
   is_open (snd (fill_slots env i st)) = is_open st \<and>
   is_closed (snd (fill_slots env i st)) = is_closed st \<and>
   length (mysql_conns (snd (fill_slots env i st))) = length (mysql_conns st)"
proof (induction env i st rule: fill_slots.induct)
  case (1 env i st)
  show ?case
    using "1.IH" by (subst (1 2 3 4) fill_slots.simps) (simp add: Let_def split: option.splits)
qed

lemma open_init_cases:
  "(\<exists>st0. open_init env st = Inl st0 \<and> mysql_conns st0 = mysql_conns st
        \<and> mysql_conns_busy st0 = mysql_conns_busy st
        \<and> is_open st0 = is_open st \<and> is_closed st0 = is_closed st)
   \<or> (\<exists>st0. open_init env st = Inr st0 \<and> mysql_conns st0 = mysql_conns st
        \<and> mysql_conns_busy st0 = mysql_conns_busy st
        \<and> is_open st0 = is_open st \<and> is_closed st0 = is_closed st)"
  by (simp add: open_init_def Let_def)

lemma db_open_frame:
  "mysql_conns_busy (snd (db_open env st)) = mysql_conns_busy st
   \<and> length (mysql_conns (snd (db_open env st))) = length (mysql_conns st)
   \<and> (is_open (snd (db_open env st)) = is_open st
        \<and> is_closed (snd (db_open env st)) = is_closed st
      \<or> is_open (snd (db_open env st)) = 1 \<and> is_closed (snd (db_open env st)) = 0)"
proof -
  from open_init_cases [of env st] show ?thesis
  proof (elim disjE exE conjE)
    fix st0 assume "open_init env st = Inl st0" "mysql_conns st0 = mysql_conns st"
      "mysql_conns_busy st0 = mysql_conns_busy st"
      "is_open st0 = is_open st" "is_closed st0 = is_closed st"
    then show ?thesis by (simp add: db_open_def)
  next
    fix st0 assume a: "open_init env st = Inr st0" "mysql_conns st0 = mysql_conns st"
      "mysql_conns_busy st0 = mysql_conns_busy st"
      "is_open st0 = is_open st" "is_closed st0 = is_closed st"
    obtain r st1 where f: "fill_slots env 0 st0 = (r, st1)" by (cases "fill_slots env 0 st0")
    from fill_slots_frame [of env 0 st0] f a
    have "mysql_conns_busy st1 = mysql_conns_busy st"
      "is_open st1 = is_open st" "is_closed st1 = is_closed st"
      "length (mysql_conns st1) = length (mysql_conns st)"
      by simp_all
    with a f show ?thesis
      by (cases r) (simp_all add: db_open_def)
  qed
qed

lemma db_close_frame:
  "mysql_conns (pool_of (db_close env st)) = mysql_conns st
   \<and> mysql_conns_busy (pool_of (db_close env st)) = mysql_conns_busy st
   \<and> (is_open (pool_of (db_close env st)) = is_open st
        \<and> is_closed (pool_of (db_close env st)) = is_closed st
      \<or> is_open (pool_of (db_close env st)) = 0 \<and> is_closed (pool_of (db_close env st)) = 1)"
  by (simp add: db_close_def close_wait_frame)

lemma sem_post_frame [simp]:
  "mysql_conns (sem_post ok st) = mysql_conns st"
  "mysql_conns_busy (sem_post ok st) = mysql_conns_busy st"
  "is_open (sem_post ok st) = is_open st"
  "is_closed (sem_post ok st) = is_closed st"
  "err_last (sem_post ok st) = err_last st"
  by (simp_all add: sem_post_def)

lemma db_get_conn_frame:
  "mysql_conns (pool_of (db_get_conn env st)) = mysql_conns st
   \<and> length (mysql_conns_busy (pool_of (db_get_conn env st))) = length (mysql_conns_busy st)
   \<and> is_open (pool_of (db_get_conn env st)) = is_open st
   \<and> is_closed (pool_of (db_get_conn env st)) = is_closed st"
proof -
  let ?st1 = "st\<lparr>db_sem := db_sem st - 1\<rparr>"
  from get_scan_cases [of 0 ?st1]
  have "\<exists>r st2. get_scan 0 ?st1 = (r, st2) \<and> mysql_conns st2 = mysql_conns st
     \<and> length (mysql_conns_busy st2) = length (mysql_conns_busy st)
     \<and> is_open st2 = is_open st \<and> is_closed st2 = is_closed st"
    by (elim disjE exE conjE) simp_all
  then obtain r st2 where "get_scan 0 ?st1 = (r, st2)" "mysql_conns st2 = mysql_conns st"
    "length (mysql_conns_busy st2) = length (mysql_conns_busy st)"
    "is_open st2 = is_open st" "is_closed st2 = is_closed st"
    by blast
  then show ?thesis
    by (simp add: db_get_conn_def Let_def split: option.splits)
qed

lemma db_post_conn_frame:
  "length (mysql_conns (snd (db_post_conn env c st))) = length (mysql_conns st)
   \<and> length (mysql_conns_busy (snd (db_post_conn env c st))) = length (mysql_conns_busy st)
   \<and> is_open (snd (db_post_conn env c st)) = is_open st
   \<and> is_closed (snd (db_post_conn env c st)) = is_closed st"
proof -
  from post_scan_cases [of c 0 st] show ?thesis
  proof (elim disjE exE conjE)
    assume "post_scan c 0 st = (False, st)"
    then show ?thesis by (simp add: db_post_conn_def)
  next
    fix k
    assume "post_scan c 0 st =
      (True, st\<lparr>mysql_conns := (mysql_conns st)[k := c],
                mysql_conns_busy := (mysql_conns_busy st)[k := 0]\<rparr>)"
    then show ?thesis by (simp add: db_post_conn_def)
  qed
qed

lemma pool_of_forget [simp]: "pool_of (forget x) = pool_of x"
  by (cases x) simp_all

lemma api_step_wf: "wf_pool st \<Longrightarrow> wf_pool (pool_of (api_step c st))"
proof (cases c)
  case (Call_db_open env)
  assume "wf_pool st"
  with db_open_frame [of env st] Call_db_open show ?thesis by (simp add: wf_pool_def)
next
  case (Call_db_close env)
  assume "wf_pool st"
  with db_close_frame [of env st] Call_db_close show ?thesis by (simp add: wf_pool_def)
next
  case (Call_db_get_conn env)
  assume "wf_pool st"
  with db_get_conn_frame [of env st] Call_db_get_conn show ?thesis by (simp add: wf_pool_def)
next
  case (Call_db_post_conn env h)
  assume "wf_pool st"
  with db_post_conn_frame [of env h st] Call_db_post_conn show ?thesis by (simp add: wf_pool_def)
qed

lemma api_step_flags:
  assumes "\<not> (is_open st = 1 \<and> is_closed st = 1)"
  shows "\<not> (is_open (pool_of (api_step c st)) = 1 \<and> is_closed (pool_of (api_step c st)) = 1)"
proof (cases c)
  case (Call_db_open env)
  with db_open_frame [of env st] assms show ?thesis by auto
next
  case (Call_db_close env)
  with db_close_frame [of env st] assms show ?thesis by auto
next
  case (Call_db_get_conn env)
  with db_get_conn_frame [of env st] assms show ?thesis by simp
next
  case (Call_db_post_conn env h)
  with db_post_conn_frame [of env h st] assms show ?thesis by simp
qed

lemma run_calls_step:
  "run_calls (c # cs) st =
     (case api_step c st of Returns u st' \<Rightarrow> run_calls cs (pool_of (api_step c st))
      | Blocks st' \<Rightarrow> pool_of (api_step c st))"
  by (simp split: outcome.splits)

lemma run_calls_wf: "wf_pool st \<Longrightarrow> wf_pool (run_calls cs st)"
proof (induction cs arbitrary: st)
  case Nil
  then show ?case by simp
next
  case (Cons c cs)
  from Cons.prems have "wf_pool (pool_of (api_step c st))" by (rule api_step_wf)
  with Cons.IH show ?case
    by (cases "api_step c st") simp_all
qed

lemma run_calls_flags:
  "\<not> (is_open st = 1 \<and> is_closed st = 1) \<Longrightarrow>
   \<not> (is_open (run_calls cs st) = 1 \<and> is_closed (run_calls cs st) = 1)"
proof (induction cs arbitrary: st)
  case Nil
  then show ?case by simp
next
  case (Cons c cs)
  from Cons.prems
  have "\<not> (is_open (pool_of (api_step c st)) = 1 \<and> is_closed (pool_of (api_step c st)) = 1)"
    by (rule api_step_flags)
  with Cons.IH show ?case
    by (cases "api_step c st") simp_all
qed

subsection \<open>db_post_conn: which slot is freed\<close>

text \<open>
  Claim C4, as stated, at a concrete pool: slot 0 lent connection 100 and slot 1 lent
  connection 101. Returning 101 leaves slot 1, the slot that lent it, busy, and frees slot 0.
\<close>

theorem db_post_conn_first_busy_counterexample:
  "mysql_conns two_lent_pool ! 0 = Some 100
   \<and> mysql_conns two_lent_pool ! 1 = Some 101
   \<and> mysql_conns_busy two_lent_pool = [1, 1, 0, 0, 0, 0, 0, 0]
   \<and> fst (db_post_conn ok_post_env (Some 101) two_lent_pool) = 0
   \<and> mysql_conns_busy (snd (db_post_conn ok_post_env (Some 101) two_lent_pool))
       = [0, 1, 0, 0, 0, 0, 0, 0]"
  by (simp add: db_post_conn_def ok_post_env_def two_lent_pool_def open_pool_def
      post_scan.simps DB_POOL_CONN_COUNT_def sem_post_def)

text \<open>
  Claim C4 as amended. On an initialised pool whose mutex is obtained, \<open>db_post_conn\<close> of a
  non-null pointer frees the busy slot of lowest index \<open>k\<close>, whichever connection that slot
  lent, and stores the returned pointer in it; no other slot changes.
\<close>

theorem db_post_conn_frees_first_busy:
  assumes "is_inited st \<noteq> 0" and "post_mutex_lock_ok env"
    and "k < DB_POOL_CONN_COUNT" and "mysql_conns_busy st ! k \<noteq> 0"
    and "\<forall>j<k. mysql_conns_busy st ! j = 0"
  shows "mysql_conns_busy (snd (db_post_conn env (Some c) st)) = (mysql_conns_busy st)[k := 0]
    \<and> mysql_conns (snd (db_post_conn env (Some c) st)) = (mysql_conns st)[k := Some c]"
proof -
  have "post_scan (Some c) 0 st =
    (True, st\<lparr>mysql_conns := (mysql_conns st)[k := Some c],
              mysql_conns_busy := (mysql_conns_busy st)[k := 0]\<rparr>)"
    using assms(3-5) by (intro post_scan_found) simp_all
  with assms(1,2) show ?thesis
    by (simp add: db_post_conn_def sem_post_def)
qed

theorem db_post_conn_frees_first_busy_witness:
  "is_inited slot1_lent_pool \<noteq> 0 \<and> post_mutex_lock_ok ok_post_env
   \<and> 1 < DB_POOL_CONN_COUNT \<and> mysql_conns_busy slot1_lent_pool ! 1 \<noteq> 0
   \<and> mysql_conns_busy slot1_lent_pool ! 0 = 0
   \<and> mysql_conns_busy (snd (db_post_conn ok_post_env (Some 101) slot1_lent_pool))
       = (mysql_conns_busy slot1_lent_pool)[1 := 0]
   \<and> mysql_conns (snd (db_post_conn ok_post_env (Some 101) slot1_lent_pool))
       = (mysql_conns slot1_lent_pool)[1 := Some 101]"
proof -
  have h1: "is_inited slot1_lent_pool \<noteq> 0" by (simp add: slot1_lent_pool_def open_pool_def)
  have h2: "post_mutex_lock_ok ok_post_env" by (simp add: ok_post_env_def)
  have h3: "1 < DB_POOL_CONN_COUNT" by (simp add: DB_POOL_CONN_COUNT_def)
  have h4: "mysql_conns_busy slot1_lent_pool ! 1 \<noteq> 0"
    by (simp add: slot1_lent_pool_def open_pool_def)
  have h0: "mysql_conns_busy slot1_lent_pool ! 0 = 0"
    by (simp add: slot1_lent_pool_def open_pool_def)
  then have h5: "\<forall>j<1. mysql_conns_busy slot1_lent_pool ! j = 0" by simp
  from h1 h2 h3 h4 h0 db_post_conn_frees_first_busy [OF h1 h2 h3 h4 h5, of 101]
  show ?thesis by blast
qed

subsection \<open>db_get_conn: what the timeout bounds\<close>

text \<open>
  Claim C2, as stated, at a concrete pool: with all eight permits taken and every outside
  call succeeding, \<open>db_get_conn\<close> does not come back with an error; it waits in \<open>sem_wait\<close>.
\<close>

theorem db_get_conn_gate_wait_counterexample:
  "db_sem all_lent_pool = 0 \<and> db_get_conn ok_get_env all_lent_pool = Blocks all_lent_pool"
  by (simp add: db_get_conn_def ok_get_env_def all_lent_pool_def open_pool_def)

text \<open>
  The deadline of line 404, read as a signed number of seconds: the clock reading plus
  \<open>DEFAULT_MUTEX_TIMEOUT_SEC\<close>, and \<open>2 ^ 64\<close> less where that sum does not fit a \<open>time_t\<close>.
\<close>

lemma mutex_deadline_sint:
  "sint (mutex_deadline t) =
     (if sint t + DEFAULT_MUTEX_TIMEOUT_SEC < 2 ^ 63 then sint t + DEFAULT_MUTEX_TIMEOUT_SEC
      else sint t + DEFAULT_MUTEX_TIMEOUT_SEC - 2 ^ 64)"
proof -
  have lo: "- (2 ^ 63) \<le> sint t" using sint_ge [of t] by simp
  have hi: "sint t < 2 ^ 63" using sint_lt [of t] by simp
  have s: "sint (mutex_deadline t) = signed_take_bit 63 (sint t + 30)"
    by (simp add: mutex_deadline_def DEFAULT_MUTEX_TIMEOUT_SEC_def sint_word_ariths)
  show ?thesis
  proof (cases "sint t + 30 < 2 ^ 63")
    case True
    with lo have "signed_take_bit 63 (sint t + 30) = sint t + 30"
      by (intro signed_take_bit_int_eq_self) simp_all
    with True s show ?thesis by (simp add: DEFAULT_MUTEX_TIMEOUT_SEC_def)
  next
    case False
    have "(sint t + 30 - 2 ^ 64) mod 2 ^ 64 = (sint t + 30) mod 2 ^ 64"
      by (rule minus_mod_self2)
    then have "take_bit (Suc 63) (sint t + 30) = take_bit (Suc 63) (sint t + 30 - 2 ^ 64)"
      unfolding take_bit_eq_mod by simp
    then have "signed_take_bit 63 (sint t + 30) = signed_take_bit 63 (sint t + 30 - 2 ^ 64)"
      by (simp only: signed_take_bit_eq_iff_take_bit_eq)
    also have "\<dots> = sint t + 30 - 2 ^ 64"
      using False hi by (intro signed_take_bit_int_eq_self) simp_all
    finally show ?thesis using False s by (simp add: DEFAULT_MUTEX_TIMEOUT_SEC_def)
  qed
qed

text \<open>
  Claim C2 as amended. Let \<open>db_get_conn\<close> reach its \<open>sem_wait\<close> and let \<open>sem_wait\<close> not
  fail. With no permit the call waits, whatever the clock and the timeout are. With a permit,
  the deadline given to \<open>pthread_mutex_timedlock\<close> is the \<open>time_t\<close> that line 404 computes;
  when the mutex is not obtained by then, the call returns the null pointer with
  \<open>err_mutex\<close> after a \<open>sem_post\<close>. That deadline is the clock reading plus
  \<open>DEFAULT_MUTEX_TIMEOUT_SEC\<close> seconds, except within that many seconds of the largest
  \<open>time_t\<close>, where the sum wraps around to a time long past.
\<close>

theorem db_get_conn_timeout_is_on_mutex:
  assumes "is_inited st \<noteq> 0" and "get_rdlock_ok env 0" and "is_open st \<noteq> 0"
    and "get_sem_wait_ok env"
  shows "(db_sem st = 0 \<longrightarrow> db_get_conn env st = Blocks st)
    \<and> (\<forall>t. 0 < db_sem st \<and> get_clock_gettime env = Some t
            \<and> \<not> get_mutex_timedlock env (mutex_deadline t) \<longrightarrow>
          db_get_conn env st =
            Returns None
              (sem_post (get_sem_post_ok env)
                 (st\<lparr>db_sem := db_sem st - 1, err_last := Some err_mutex\<rparr>)))
    \<and> (\<forall>t. sint (mutex_deadline t) =
          (if sint t + DEFAULT_MUTEX_TIMEOUT_SEC < 2 ^ 63
           then sint t + DEFAULT_MUTEX_TIMEOUT_SEC
           else sint t + DEFAULT_MUTEX_TIMEOUT_SEC - 2 ^ 64))"
proof -
  have "db_sem st = 0 \<longrightarrow> db_get_conn env st = Blocks st"
    using assms by (simp add: db_get_conn_def)
  moreover have "\<forall>t. 0 < db_sem st \<and> get_clock_gettime env = Some t
            \<and> \<not> get_mutex_timedlock env (mutex_deadline t) \<longrightarrow>
          db_get_conn env st =
            Returns None
              (sem_post (get_sem_post_ok env)
                 (st\<lparr>db_sem := db_sem st - 1, err_last := Some err_mutex\<rparr>))"
    using assms by (simp add: db_get_conn_def Let_def)
  ultimately show ?thesis
    using mutex_deadline_sint by blast
qed

theorem db_get_conn_timeout_is_on_mutex_witness:
  "is_inited all_lent_pool \<noteq> 0 \<and> get_rdlock_ok ok_get_env 0 \<and> is_open all_lent_pool \<noteq> 0
   \<and> get_sem_wait_ok ok_get_env \<and> db_sem all_lent_pool = 0
   \<and> db_get_conn ok_get_env all_lent_pool = Blocks all_lent_pool
   \<and> is_inited open_pool \<noteq> 0 \<and> get_rdlock_ok timedlock_fails_env 0 \<and> is_open open_pool \<noteq> 0
   \<and> get_sem_wait_ok timedlock_fails_env \<and> 0 < db_sem open_pool
   \<and> get_clock_gettime timedlock_fails_env = Some 1000
   \<and> \<not> get_mutex_timedlock timedlock_fails_env (mutex_deadline 1000)
   \<and> db_get_conn timedlock_fails_env open_pool =
        Returns None
          (sem_post (get_sem_post_ok timedlock_fails_env)
             (open_pool\<lparr>db_sem := db_sem open_pool - 1, err_last := Some err_mutex\<rparr>))
   \<and> sint (mutex_deadline 1000) = 1030
   \<and> sint (mutex_deadline 9223372036854775807) = - 9223372036854775779"
proof -
  have a1: "is_inited all_lent_pool \<noteq> 0" by (simp add: all_lent_pool_def open_pool_def)
  have a2: "get_rdlock_ok ok_get_env 0" by (simp add: ok_get_env_def)
  have a3: "is_open all_lent_pool \<noteq> 0" by (simp add: all_lent_pool_def open_pool_def)
  have a4: "get_sem_wait_ok ok_get_env" by (simp add: ok_get_env_def)
  have a5: "db_sem all_lent_pool = 0" by (simp add: all_lent_pool_def)
  have b1: "is_inited open_pool \<noteq> 0" by (simp add: open_pool_def)
  have b2: "get_rdlock_ok timedlock_fails_env 0"
    by (simp add: timedlock_fails_env_def ok_get_env_def)
  have b3: "is_open open_pool \<noteq> 0" by (simp add: open_pool_def)
  have b4: "get_sem_wait_ok timedlock_fails_env"
    by (simp add: timedlock_fails_env_def ok_get_env_def)
  have b5: "0 < db_sem open_pool" by (simp add: open_pool_def)
  have b6: "get_clock_gettime timedlock_fails_env = Some 1000"
    by (simp add: timedlock_fails_env_def ok_get_env_def)
  have b7: "\<not> get_mutex_timedlock timedlock_fails_env (mutex_deadline 1000)"
    by (simp add: timedlock_fails_env_def ok_get_env_def mutex_deadline_def
        DEFAULT_MUTEX_TIMEOUT_SEC_def)
  note a = db_get_conn_timeout_is_on_mutex [OF a1 a2 a3 a4]
  note b = db_get_conn_timeout_is_on_mutex [OF b1 b2 b3 b4]
  from a a5 have ra: "db_get_conn ok_get_env all_lent_pool = Blocks all_lent_pool" by blast
  from b b5 b6 b7 have rb: "db_get_conn timedlock_fails_env open_pool =
        Returns None
          (sem_post (get_sem_post_ok timedlock_fails_env)
             (open_pool\<lparr>db_sem := db_sem open_pool - 1, err_last := Some err_mutex\<rparr>))"
    by blast
  from b have d: "sint (mutex_deadline t) =
          (if sint t + DEFAULT_MUTEX_TIMEOUT_SEC < 2 ^ 63
           then sint t + DEFAULT_MUTEX_TIMEOUT_SEC
           else sint t + DEFAULT_MUTEX_TIMEOUT_SEC - 2 ^ 64)" for t
    by blast
  have d1: "sint (mutex_deadline 1000) = 1030"
    by (subst d) (simp add: DEFAULT_MUTEX_TIMEOUT_SEC_def)
  have d2: "sint (mutex_deadline 9223372036854775807) = - 9223372036854775779"
    by (subst d) (simp add: DEFAULT_MUTEX_TIMEOUT_SEC_def)
  from a1 a2 a3 a4 a5 ra b1 b2 b3 b4 b5 b6 b7 rb d1 d2 show ?thesis by blast
qed

text \<open>
  At the largest \<open>time_t\<close> the deadline is already past when it is computed: the mutex is
  free, and the call still returns the null pointer with \<open>err_mutex\<close>.
\<close>

lemma top_of_time_value:
  "db_get_conn top_of_time_env open_pool = Returns None (open_pool\<lparr>err_last := Some err_mutex\<rparr>)"
  by (simp add: db_get_conn_def top_of_time_env_def ok_get_env_def open_pool_def
      mutex_deadline_def DEFAULT_MUTEX_TIMEOUT_SEC_def sem_post_def)

subsection \<open>db_close: the connections\<close>

lemma open_pool_reached: "db_open ok_open_env initial_pool = (0, open_pool)"
  by code_simp

lemma db_close_keeps_connections:
  "mysql_conns (pool_of (db_close env st)) = mysql_conns st
   \<and> mysql_closed (pool_of (db_close env st)) = mysql_closed st"
  by (simp add: db_close_def close_wait_frame)

text \<open>
  Claim C1 at a concrete pool: \<open>db_close\<close> of the open pool, no slot busy, returns 0, and
  then all eight slots still hold their connections and nothing was handed to
  \<open>mysql_close\<close>. The following \<open>db_get_conn\<close> does return the null pointer with
  \<open>err_not_open\<close>.
\<close>

theorem db_close_destroys_nothing:
  "db_close ok_close_env open_pool = Returns 0 closed_pool
   \<and> mysql_conns closed_pool =
       [Some 100, Some 101, Some 102, Some 103, Some 104, Some 105, Some 106, Some 107]
   \<and> mysql_closed closed_pool = []
   \<and> db_get_conn ok_get_env closed_pool = Returns None (closed_pool\<lparr>err_last := Some err_not_open\<rparr>)"
  by (simp add: db_close_def close_wait.simps ok_close_env_def closed_pool_def open_pool_def
      DB_POOL_CONN_COUNT_def db_get_conn_def ok_get_env_def)

subsection \<open>db_get_conn: the permit on the failure paths\<close>

text \<open>
  Claim C3 at a concrete pool: when the second \<open>pthread_rwlock_rdlock\<close> fails, \<open>db_get_conn\<close>
  returns the null pointer and the semaphore counter is one less than before the call.
\<close>

theorem db_get_conn_rwlock_failure_keeps_permit:
  "db_sem open_pool = 8
   \<and> db_get_conn second_rdlock_fails_env open_pool =
       Returns None (open_pool\<lparr>db_sem := 7, err_last := Some err_rwlock\<rparr>)"
  by (simp add: db_get_conn_def second_rdlock_fails_env_def ok_get_env_def open_pool_def)

text \<open>
  The other paths: when the second \<open>pthread_rwlock_rdlock\<close> and \<open>sem_post\<close> succeed, a
  \<open>db_get_conn\<close> that returns the null pointer leaves the semaphore counter as it was.
\<close>

lemma db_get_conn_failure_posts_back:
  assumes "db_get_conn env st = Returns None st'"
    and "get_rdlock_ok env 1" and "get_sem_post_ok env"
  shows "db_sem st' = db_sem st"
proof -
  let ?st1 = "st\<lparr>db_sem := db_sem st - 1\<rparr>"
  from get_scan_cases [of 0 ?st1]
  have "\<exists>r st2. get_scan 0 ?st1 = (r, st2) \<and> db_sem st2 = db_sem st - 1"
    by (elim disjE exE conjE) simp_all
  then obtain r st2 where "get_scan 0 ?st1 = (r, st2)" "db_sem st2 = db_sem st - 1"
    by blast
  with assms show ?thesis
    by (auto simp: db_get_conn_def Let_def sem_post_def split: option.splits if_splits)
qed

subsection \<open>db_get_conn: the busy flags on the failure paths\<close>



text \<open>
  From the initial variables the four functions keep every slot of an open pool non-null:
  \<open>is_open\<close> is set only after the \<open>for\<close> loop of \<open>db_open\<close> has filled all slots, and
  afterwards a slot is written only by \<open>db_post_conn\<close>, with a non-null pointer.
\<close>

lemma fill_slots_ok_fills:
  "fill_slots env i st = (Fill_ok, st') \<Longrightarrow>
   length (mysql_conns st) = DB_POOL_CONN_COUNT \<Longrightarrow>
   (\<forall>j. i \<le> j \<and> j < DB_POOL_CONN_COUNT \<longrightarrow> mysql_conns st' ! j \<noteq> None)
   \<and> (\<forall>j<i. mysql_conns st' ! j = mysql_conns st ! j)"
proof (induction env i st rule: fill_slots.induct)
  case (1 env i st)
  show ?case
  proof (cases "i < DB_POOL_CONN_COUNT")
    case False
    with "1.prems"(1) have "st' = st" by (subst (asm) fill_slots.simps) simp
    with False show ?thesis by auto
  next
    case True
    show ?thesis
    proof (cases "mysql_conns st ! i")
      case None
      let ?st1 = "st\<lparr>mysql_conns := (mysql_conns st)[i := init_ptr (open_connect env i)]\<rparr>"
      from "1.prems"(1) True None have con: "is_connected (open_connect env i)"
        by (subst (asm) fill_slots.simps) (auto simp: Let_def split: if_splits)
      with "1.prems"(1) True None have rec: "fill_slots env (i + 1) ?st1 = (Fill_ok, st')"
        by (subst (asm) fill_slots.simps) (simp add: Let_def)
      from con obtain a where a: "open_connect env i = Connected a"
        by (cases "open_connect env i") simp_all
      have ih: "(\<forall>j. i + 1 \<le> j \<and> j < DB_POOL_CONN_COUNT \<longrightarrow> mysql_conns st' ! j \<noteq> None)
          \<and> (\<forall>j<i + 1. mysql_conns st' ! j = mysql_conns ?st1 ! j)"
        using "1.IH"(1) [OF True None refl _ rec] con "1.prems"(2) by simp
      then have here: "mysql_conns st' ! i = Some a"
        using "1.prems"(2) True a by simp
      have "mysql_conns st' ! j \<noteq> None" if "i \<le> j \<and> j < DB_POOL_CONN_COUNT" for j
        using that ih here by (cases "j = i") simp_all
      moreover have "mysql_conns st' ! j = mysql_conns st ! j" if "j < i" for j
        using that ih by simp
      ultimately show ?thesis by blast
    next
      case (Some c)
      from "1.prems"(1) True Some have ping: "open_ping_ok env i"
        by (subst (asm) fill_slots.simps) (auto split: if_splits)
      with "1.prems"(1) True Some have rec: "fill_slots env (i + 1) st = (Fill_ok, st')"
        by (subst (asm) fill_slots.simps) simp
      have ih: "(\<forall>j. i + 1 \<le> j \<and> j < DB_POOL_CONN_COUNT \<longrightarrow> mysql_conns st' ! j \<noteq> None)
          \<and> (\<forall>j<i + 1. mysql_conns st' ! j = mysql_conns st ! j)"
        using "1.IH"(2) [OF True Some _ rec] ping "1.prems"(2) by simp
      then have here: "mysql_conns st' ! i = Some c"
        using Some by simp
      have "mysql_conns st' ! j \<noteq> None" if "i \<le> j \<and> j < DB_POOL_CONN_COUNT" for j
        using that ih here by (cases "j = i") simp_all
      moreover have "mysql_conns st' ! j = mysql_conns st ! j" if "j < i" for j
        using that ih by simp
      ultimately show ?thesis by blast
    qed
  qed
qed

lemma fill_slots_full_unchanged:
  "None \<notin> set (mysql_conns st) \<Longrightarrow> length (mysql_conns st) = DB_POOL_CONN_COUNT \<Longrightarrow>
   mysql_conns (snd (fill_slots env i st)) = mysql_conns st"
proof (induction env i st rule: fill_slots.induct)
  case (1 env i st)
  show ?case
  proof (cases "i < DB_POOL_CONN_COUNT")
    case False
    then show ?thesis by (subst fill_slots.simps) simp
  next
    case True
    with "1.prems" have "mysql_conns st ! i \<in> set (mysql_conns st)" by simp
    with "1.prems"(1) obtain c where c: "mysql_conns st ! i = Some c"
      by (cases "mysql_conns st ! i") auto
    show ?thesis
    proof (cases "open_ping_ok env i")
      case False
      with True c show ?thesis by (subst fill_slots.simps) simp
    next
      case ping: True
      have "fill_slots env i st = fill_slots env (i + 1) st"
        using True c ping by (subst fill_slots.simps) simp
      moreover have "mysql_conns (snd (fill_slots env (i + 1) st)) = mysql_conns st"
        using "1.IH"(2) [OF True c] ping "1.prems" by simp
      ultimately show ?thesis by simp
    qed
  qed
qed

lemma all_filled:
  assumes "length xs = n" and "\<forall>j<n. xs ! j \<noteq> None"
  shows "None \<notin> set xs"
  using assms by (auto simp: in_set_conv_nth)

lemma db_open_keeps_filled:
  assumes "slots_filled_when_open st"
  shows "slots_filled_when_open (snd (db_open env st))"
proof -
  from assms have len: "length (mysql_conns st) = DB_POOL_CONN_COUNT"
    and lenb: "length (mysql_conns_busy st) = DB_POOL_CONN_COUNT"
    by (simp_all add: slots_filled_when_open_def wf_pool_def)
  have wf: "wf_pool (snd (db_open env st))"
    using db_open_frame [of env st] len lenb by (simp add: wf_pool_def)
  from open_init_cases [of env st] show ?thesis
  proof (elim disjE exE conjE)
    fix st0 assume "open_init env st = Inl st0" "mysql_conns st0 = mysql_conns st"
      "mysql_conns_busy st0 = mysql_conns_busy st"
      "is_open st0 = is_open st" "is_closed st0 = is_closed st"
    with assms show ?thesis
      by (simp add: db_open_def slots_filled_when_open_def wf_pool_def)
  next
    fix st0 assume a: "open_init env st = Inr st0" "mysql_conns st0 = mysql_conns st"
      "mysql_conns_busy st0 = mysql_conns_busy st"
      "is_open st0 = is_open st" "is_closed st0 = is_closed st"
    obtain r st1 where f: "fill_slots env 0 st0 = (r, st1)" by (cases "fill_slots env 0 st0")
    from fill_slots_frame [of env 0 st0] f a
    have fr: "is_open st1 = is_open st"
      "length (mysql_conns st1) = length (mysql_conns st)"
      by simp_all
    show ?thesis
    proof (cases "is_open st = 0")
      case True
      show ?thesis
      proof (cases "r = Fill_ok \<and> open_mutex_lock_ok env \<and> open_wrlock_ok env")
        case ok: True
        with f have "fill_slots env 0 st0 = (Fill_ok, st1)" by simp
        from fill_slots_ok_fills [OF this] a(2) len
        have "\<forall>j<DB_POOL_CONN_COUNT. mysql_conns st1 ! j \<noteq> None" by simp
        with fr(2) len have "None \<notin> set (mysql_conns st1)" by (intro all_filled) simp_all
        with ok a(1) f wf show ?thesis
          by (simp add: db_open_def slots_filled_when_open_def)
      next
        case False
        with a(1) f fr(1) a(4) True have "is_open (snd (db_open env st)) = 0"
          by (cases r) (auto simp: db_open_def)
        with wf show ?thesis by (simp add: slots_filled_when_open_def)
      qed
    next
      case False
      with assms have full: "None \<notin> set (mysql_conns st0)"
        by (simp add: slots_filled_when_open_def a(2))
      from fill_slots_full_unchanged [OF full, of env 0] a(2) len f
      have "mysql_conns st1 = mysql_conns st" by simp
      with full a(2) a(1) f wf show ?thesis
        by (cases r) (simp_all add: db_open_def slots_filled_when_open_def)
    qed
  qed
qed

lemma api_step_keeps_filled:
  assumes "slots_filled_when_open st"
  shows "slots_filled_when_open (pool_of (api_step c st))"
proof (cases c)
  case (Call_db_open env)
  with db_open_keeps_filled [OF assms, of env] show ?thesis by simp
next
  case (Call_db_close env)
  with db_close_frame [of env st] assms show ?thesis
    by (auto simp: slots_filled_when_open_def wf_pool_def)
next
  case (Call_db_get_conn env)
  with db_get_conn_frame [of env st] assms show ?thesis
    by (simp add: slots_filled_when_open_def wf_pool_def)
next
  case (Call_db_post_conn env h)
  have wf: "wf_pool (pool_of (api_step c st))"
    using assms by (intro api_step_wf) (simp add: slots_filled_when_open_def)
  have "is_open st = 0 \<or> None \<notin> set (mysql_conns (snd (db_post_conn env h st)))"
  proof (cases "is_open st = 0")
    case True
    then show ?thesis by simp
  next
    case False
    with assms have full: "None \<notin> set (mysql_conns st)"
      by (simp add: slots_filled_when_open_def)
    from post_scan_cases [of h 0 st]
    have "None \<notin> set (mysql_conns (snd (db_post_conn env h st)))"
    proof (elim disjE exE conjE)
      assume "post_scan h 0 st = (False, st)"
      with full show ?thesis by (simp add: db_post_conn_def)
    next
      fix k
      assume "post_scan h 0 st =
        (True, st\<lparr>mysql_conns := (mysql_conns st)[k := h],
                  mysql_conns_busy := (mysql_conns_busy st)[k := 0]\<rparr>)"
      moreover have "h \<noteq> None \<Longrightarrow> None \<notin> set ((mysql_conns st)[k := h])"
        using full set_update_subset_insert [of "mysql_conns st" k h] by auto
      ultimately show ?thesis
        using full by (auto simp: db_post_conn_def)
    qed
    then show ?thesis by simp
  qed
  with wf Call_db_post_conn db_post_conn_frame [of env h st] show ?thesis
    by (simp add: slots_filled_when_open_def)
qed

lemma run_calls_keeps_filled:
  "slots_filled_when_open st \<Longrightarrow> slots_filled_when_open (run_calls cs st)"
proof (induction cs arbitrary: st)
  case Nil
  then show ?case by simp
next
  case (Cons c cs)
  from Cons.prems have "slots_filled_when_open (pool_of (api_step c st))"
    by (rule api_step_keeps_filled)
  with Cons.IH show ?case
    by (cases "api_step c st") simp_all
qed

lemma open_pool_never_has_null_slot:
  "is_open (run_calls cs initial_pool) = 0 \<or> None \<notin> set (mysql_conns (run_calls cs initial_pool))"
proof -
  have "slots_filled_when_open initial_pool"
    by (simp add: slots_filled_when_open_def wf_pool_def initial_pool_def)
  then have "slots_filled_when_open (run_calls cs initial_pool)"
    by (rule run_calls_keeps_filled)
  then show ?thesis by (simp add: slots_filled_when_open_def)
qed



text \<open>
  The scan sets the flag before the pointer is tested, so the conclusion needs the
  invariant above: in a pool that the functions do not build, an open one whose free slot 0
  holds the null pointer, the flag of slot 0 is 1 after the null return.
\<close>

lemma db_get_conn_at_null_slot_pool:
  "mysql_conns_busy null_slot_pool = [0, 0, 0, 0, 0, 0, 0, 0]
   \<and> db_get_conn ok_get_env null_slot_pool =
       Returns None
         (null_slot_pool\<lparr>mysql_conns_busy := [1, 0, 0, 0, 0, 0, 0, 0],
                          err_last := Some err_no_free_slot_bug\<rparr>)"
  by (simp add: db_get_conn_def ok_get_env_def null_slot_pool_def open_pool_def
      get_scan.simps DB_POOL_CONN_COUNT_def sem_post_def)

text \<open>The concrete pools above are reached from the open pool by calls that all succeed.\<close>

lemma two_lent_pool_reached:
  "run_calls [Call_db_get_conn ok_get_env, Call_db_get_conn ok_get_env] open_pool = two_lent_pool"
  by code_simp

lemma slot1_lent_pool_reached:
  "run_calls [Call_db_post_conn ok_post_env (Some 100)] two_lent_pool = slot1_lent_pool"
  by code_simp

lemma all_lent_pool_reached:
  "run_calls (replicate 8 (Call_db_get_conn ok_get_env)) open_pool = all_lent_pool"
  by code_simp

subsection \<open>The number of busy slots\<close>

text \<open>What one flag does to the number of set flags.\<close>

lemma post_scan_freed:
  "post_scan c i st = (False, st) \<or>
   (\<exists>k. k < DB_POOL_CONN_COUNT \<and> mysql_conns_busy st ! k \<noteq> 0 \<and>
        post_scan c i st =
          (True, st\<lparr>mysql_conns := (mysql_conns st)[k := c],
                    mysql_conns_busy := (mysql_conns_busy st)[k := 0]\<rparr>))"
proof (induction c i st rule: post_scan.induct)
  case (1 c i st)
  show ?case
  proof (cases "i < DB_POOL_CONN_COUNT")
    case False
    then show ?thesis by (subst post_scan.simps) simp
  next
    case True
    show ?thesis
    proof (cases "mysql_conns_busy st ! i \<noteq> 0")
      case busy: True
      have "post_scan c i st =
          (True, st\<lparr>mysql_conns := (mysql_conns st)[i := c],
                    mysql_conns_busy := (mysql_conns_busy st)[i := 0]\<rparr>)"
        using True busy by (subst post_scan.simps) simp
      with True busy show ?thesis by blast
    next
      case free: False
      have eq: "post_scan c i st = post_scan c (i + 1) st"
        using True free by (subst post_scan.simps) simp
      from "1.IH" [OF True] free show ?thesis
        unfolding eq by simp
    qed
  qed
qed

lemma count_set_flag:
  "k < length xs \<Longrightarrow> xs ! k = 0 \<Longrightarrow> v \<noteq> 0 \<Longrightarrow>
   length (filter (\<lambda>b. b \<noteq> 0) (xs[k := v])) = Suc (length (filter (\<lambda>b. b \<noteq> (0::int)) xs))"
proof (induction xs arbitrary: k)
  case Nil
  then show ?case by simp
next
  case (Cons x xs)
  then show ?case by (cases k) simp_all
qed

lemma count_clear_flag:
  "k < length xs \<Longrightarrow> xs ! k \<noteq> 0 \<Longrightarrow>
   Suc (length (filter (\<lambda>b. b \<noteq> 0) (xs[k := 0]))) = length (filter (\<lambda>b. b \<noteq> (0::int)) xs)"
proof (induction xs arbitrary: k)
  case Nil
  then show ?case by simp
next
  case (Cons x xs)
  then show ?case by (cases k) simp_all
qed

lemma busy_count_le: "wf_pool st \<Longrightarrow> busy_count st \<le> int DB_POOL_CONN_COUNT"
proof -
  assume "wf_pool st"
  then have "length (mysql_conns_busy st) = DB_POOL_CONN_COUNT" by (simp add: wf_pool_def)
  moreover have "length (filter (\<lambda>b. b \<noteq> 0) (mysql_conns_busy st)) \<le> length (mysql_conns_busy st)"
    by (rule length_filter_le)
  ultimately show ?thesis by (simp add: busy_count_def)
qed

lemma busy_count_set_flag:
  assumes "wf_pool st" and "k < DB_POOL_CONN_COUNT" and "mysql_conns_busy st ! k = 0"
  shows "busy_count (st\<lparr>mysql_conns_busy := (mysql_conns_busy st)[k := 1]\<rparr>) = busy_count st + 1"
  using assms count_set_flag [of k "mysql_conns_busy st" 1]
  by (simp add: busy_count_def wf_pool_def)

lemma busy_count_clear_flag:
  assumes "wf_pool st" and "k < DB_POOL_CONN_COUNT" and "mysql_conns_busy st ! k \<noteq> 0"
  shows "busy_count (st\<lparr>mysql_conns := cs, mysql_conns_busy := (mysql_conns_busy st)[k := 0]\<rparr>)
     = busy_count st - 1"
  using assms count_clear_flag [of k "mysql_conns_busy st"]
  by (simp add: busy_count_def wf_pool_def)

lemma busy_count_sem_post [simp]: "busy_count (sem_post ok st) = busy_count st"
  by (simp add: busy_count_def)

lemma db_get_conn_count:
  assumes "wf_pool st"
  shows "(busy_count (pool_of (db_get_conn env st)) = busy_count st
          \<or> busy_count (pool_of (db_get_conn env st)) = busy_count st + 1)
    \<and> (\<forall>c st'. db_get_conn env st = Returns (Some c) st' \<longrightarrow> busy_count st' = busy_count st + 1)"
proof -
  let ?st1 = "st\<lparr>db_sem := db_sem st - 1\<rparr>"
  have wf1: "wf_pool ?st1" using assms by (simp add: wf_pool_def)
  have b1: "busy_count ?st1 = busy_count st" by (simp add: busy_count_def)
  from get_scan_cases [of 0 ?st1] show ?thesis
  proof (elim disjE exE conjE)
    assume "get_scan 0 ?st1 = (None, ?st1)"
    then show ?thesis
      by (simp add: db_get_conn_def Let_def busy_count_def split: option.splits)
  next
    fix k
    assume k: "k < DB_POOL_CONN_COUNT" "mysql_conns_busy ?st1 ! k = 0"
      and g: "get_scan 0 ?st1 =
        (mysql_conns ?st1 ! k, ?st1\<lparr>mysql_conns_busy := (mysql_conns_busy ?st1)[k := 1]\<rparr>)"
    let ?st2 = "?st1\<lparr>mysql_conns_busy := (mysql_conns_busy ?st1)[k := 1]\<rparr>"
    have b2: "busy_count ?st2 = busy_count st + 1"
      using busy_count_set_flag [OF wf1 k] b1 by simp
    have e: "busy_count (st2\<lparr>err_last := x\<rparr>) = busy_count st2" for st2 x
      by (simp add: busy_count_def)
    have e0: "busy_count (st\<lparr>err_last := x\<rparr>) = busy_count st" for x
      by (simp add: busy_count_def)
    show ?thesis
      using g b1 b2
      by (auto simp: db_get_conn_def Let_def e split: option.splits)
  qed
qed

lemma db_post_conn_count:
  assumes "wf_pool st"
  shows "(busy_count (snd (db_post_conn env h st)) = busy_count st
          \<or> busy_count (snd (db_post_conn env h st)) = busy_count st - 1)
    \<and> (\<forall>st'. db_post_conn env h st = (0, st') \<longrightarrow> busy_count st' = busy_count st - 1)"
proof -
  have e: "busy_count (st2\<lparr>err_last := x\<rparr>) = busy_count st2" for st2 x
    by (simp add: busy_count_def)
  from post_scan_freed [of h 0 st] show ?thesis
  proof (elim disjE exE conjE)
    assume "post_scan h 0 st = (False, st)"
    then show ?thesis by (simp add: db_post_conn_def e)
  next
    fix k
    assume k: "k < DB_POOL_CONN_COUNT" "mysql_conns_busy st ! k \<noteq> 0"
      and p: "post_scan h 0 st =
        (True, st\<lparr>mysql_conns := (mysql_conns st)[k := h],
                  mysql_conns_busy := (mysql_conns_busy st)[k := 0]\<rparr>)"
    from busy_count_clear_flag [OF assms k, of "(mysql_conns st)[k := h]"] p
    show ?thesis by (simp add: db_post_conn_def e)
  qed
qed

text \<open>
  Claim C6. Take any sequence of \<open>db_get_conn\<close> and \<open>db_post_conn\<close> calls, whether or
  not each handle is returned exactly once, and the pool \<open>s\<close> it ends in. The number of
  slots whose busy flag is set is at least 0 and at most \<open>DB_POOL_CONN_COUNT\<close> there, and
  the next call keeps it so by what the scans do: a \<open>db_get_conn\<close> raises the number by
  one or leaves it, and returns a handle only when the number was below
  \<open>DB_POOL_CONN_COUNT\<close> and is now one more; a \<open>db_post_conn\<close> lowers the number by one or
  leaves it, and returns 0 only when the number was above 0 and is now one less.
\<close>

theorem busy_count_bounded:
  assumes "wf_pool st" and "list_all is_get_or_post cs"
  shows "(let s = run_calls cs st in
     0 \<le> busy_count s \<and> busy_count s \<le> int DB_POOL_CONN_COUNT
     \<and> (\<forall>env c st'. db_get_conn env s = Returns (Some c) st' \<longrightarrow>
           busy_count s < int DB_POOL_CONN_COUNT \<and> busy_count st' = busy_count s + 1)
     \<and> (\<forall>env. busy_count (pool_of (db_get_conn env s)) = busy_count s
              \<or> busy_count (pool_of (db_get_conn env s)) = busy_count s + 1)
     \<and> (\<forall>env h st'. db_post_conn env h s = (0, st') \<longrightarrow>
           0 < busy_count s \<and> busy_count st' = busy_count s - 1)
     \<and> (\<forall>env h. busy_count (snd (db_post_conn env h s)) = busy_count s
              \<or> busy_count (snd (db_post_conn env h s)) = busy_count s - 1))"
proof -
  define s where "s = run_calls cs st"
  from assms(1) have wf: "wf_pool s" unfolding s_def by (rule run_calls_wf)
  have nonneg: "0 \<le> busy_count x" for x by (simp add: busy_count_def)
  have up: "busy_count s \<le> int DB_POOL_CONN_COUNT" using wf by (rule busy_count_le)
  have get1: "busy_count s < int DB_POOL_CONN_COUNT \<and> busy_count st' = busy_count s + 1"
    if r: "db_get_conn env s = Returns (Some c) st'" for env c st'
  proof -
    from db_get_conn_count [OF wf, of env] r have eq: "busy_count st' = busy_count s + 1"
      by blast
    from r have "st' = pool_of (db_get_conn env s)" by simp
    with wf have "wf_pool st'"
      using api_step_wf [of s "Call_db_get_conn env"] by simp
    then have "busy_count st' \<le> int DB_POOL_CONN_COUNT" by (rule busy_count_le)
    with eq show ?thesis by simp
  qed
  have get2: "busy_count (pool_of (db_get_conn env s)) = busy_count s
              \<or> busy_count (pool_of (db_get_conn env s)) = busy_count s + 1" for env
    using db_get_conn_count [OF wf, of env] by blast
  have post1: "0 < busy_count s \<and> busy_count st' = busy_count s - 1"
    if r: "db_post_conn env h s = (0, st')" for env h st'
  proof -
    from db_post_conn_count [OF wf, of env h] r have eq: "busy_count st' = busy_count s - 1"
      by blast
    with nonneg [of st'] show ?thesis by simp
  qed
  have post2: "busy_count (snd (db_post_conn env h s)) = busy_count s
              \<or> busy_count (snd (db_post_conn env h s)) = busy_count s - 1" for env h
    using db_post_conn_count [OF wf, of env h] by blast
  from nonneg [of s] up get1 get2 post1 post2 show ?thesis
    unfolding Let_def s_def [symmetric] by blast
qed

lemma loan_run_reaches:
  "run_calls [Call_db_get_conn ok_get_env, Call_db_get_conn ok_get_env,
         Call_db_post_conn ok_post_env (Some 100)] open_pool = slot1_lent_pool"
  by code_simp

theorem busy_count_bounded_witness:
  "wf_pool open_pool
   \<and> list_all is_get_or_post
        [Call_db_get_conn ok_get_env, Call_db_get_conn ok_get_env,
         Call_db_post_conn ok_post_env (Some 100)]
   \<and> run_calls [Call_db_get_conn ok_get_env, Call_db_get_conn ok_get_env,
         Call_db_post_conn ok_post_env (Some 100)] open_pool = slot1_lent_pool
   \<and> 0 \<le> busy_count slot1_lent_pool
   \<and> busy_count slot1_lent_pool \<le> int DB_POOL_CONN_COUNT
   \<and> db_get_conn ok_get_env slot1_lent_pool =
        Returns (Some 100)
          (slot1_lent_pool\<lparr>db_sem := 6, mysql_conns_busy := [1, 1, 0, 0, 0, 0, 0, 0]\<rparr>)
   \<and> busy_count slot1_lent_pool < int DB_POOL_CONN_COUNT
   \<and> busy_count (slot1_lent_pool\<lparr>db_sem := 6, mysql_conns_busy := [1, 1, 0, 0, 0, 0, 0, 0]\<rparr>)
        = busy_count slot1_lent_pool + 1
   \<and> db_post_conn ok_post_env (Some 101) slot1_lent_pool =
        (0, slot1_lent_pool\<lparr>db_sem := 8, mysql_conns_busy := [0, 0, 0, 0, 0, 0, 0, 0]\<rparr>)
   \<and> 0 < busy_count slot1_lent_pool
   \<and> busy_count (slot1_lent_pool\<lparr>db_sem := 8, mysql_conns_busy := [0, 0, 0, 0, 0, 0, 0, 0]\<rparr>)
        = busy_count slot1_lent_pool - 1"
proof -
  have h1: "wf_pool open_pool"
    by (simp add: wf_pool_def open_pool_def DB_POOL_CONN_COUNT_def)
  have h2: "list_all is_get_or_post
        [Call_db_get_conn ok_get_env, Call_db_get_conn ok_get_env,
         Call_db_post_conn ok_post_env (Some 100)]"
    by simp
  have r: "run_calls [Call_db_get_conn ok_get_env, Call_db_get_conn ok_get_env,
         Call_db_post_conn ok_post_env (Some 100)] open_pool = slot1_lent_pool"
    by (rule loan_run_reaches)
  have g: "db_get_conn ok_get_env slot1_lent_pool =
        Returns (Some 100)
          (slot1_lent_pool\<lparr>db_sem := 6, mysql_conns_busy := [1, 1, 0, 0, 0, 0, 0, 0]\<rparr>)"
    by (simp add: db_get_conn_def ok_get_env_def slot1_lent_pool_def open_pool_def
        get_scan.simps DB_POOL_CONN_COUNT_def)
  have p: "db_post_conn ok_post_env (Some 101) slot1_lent_pool =
        (0, slot1_lent_pool\<lparr>db_sem := 8, mysql_conns_busy := [0, 0, 0, 0, 0, 0, 0, 0]\<rparr>)"
    by (simp add: db_post_conn_def ok_post_env_def slot1_lent_pool_def open_pool_def
        post_scan.simps DB_POOL_CONN_COUNT_def sem_post_def)
  note t = busy_count_bounded [OF h1 h2, unfolded Let_def r]
  from t have b: "0 \<le> busy_count slot1_lent_pool"
    "busy_count slot1_lent_pool \<le> int DB_POOL_CONN_COUNT"
    by blast+
  from t g have bg: "busy_count slot1_lent_pool < int DB_POOL_CONN_COUNT"
    "busy_count (slot1_lent_pool\<lparr>db_sem := 6, mysql_conns_busy := [1, 1, 0, 0, 0, 0, 0, 0]\<rparr>)
        = busy_count slot1_lent_pool + 1"
    by blast+
  from t p have bp: "0 < busy_count slot1_lent_pool"
    "busy_count (slot1_lent_pool\<lparr>db_sem := 8, mysql_conns_busy := [0, 0, 0, 0, 0, 0, 0, 0]\<rparr>)
        = busy_count slot1_lent_pool - 1"
    by blast+
  from h1 h2 r b g bg p bp show ?thesis by blast
qed

text \<open>
  Under the loan discipline every handle that is out has a busy slot of its own: the number
  of handles out never exceeds the number of busy slots, which never exceeds
  \<open>DB_POOL_CONN_COUNT\<close>.
\<close>

lemma loans_within_busy:
  assumes "wf_pool st" and "int (length held) \<le> busy_count st"
    and "run_loans cs st held = Some (st', held')"
  shows "st' = run_calls cs st \<and> int (length held') \<le> busy_count st'
    \<and> busy_count st' \<le> int DB_POOL_CONN_COUNT"
  using assms
proof (induction cs st held rule: run_loans.induct)
  case (1 st held)
  then show ?case by (simp add: busy_count_le)
next
  case (2 env cs st held)
  note cnt = db_get_conn_count [OF "2.prems"(1), of env]
  have wf': "wf_pool (pool_of (db_get_conn env st))"
    using api_step_wf [OF "2.prems"(1), of "Call_db_get_conn env"] by simp
  show ?case
  proof (cases "db_get_conn env st")
    case (Blocks s1)
    with "2.prems" cnt wf' show ?thesis by (auto simp: busy_count_le)
  next
    case (Returns r s1)
    show ?thesis
    proof (cases r)
      case None
      with Returns cnt "2.prems" have "int (length held) \<le> busy_count s1" by auto
      moreover from Returns wf' have "wf_pool s1" by simp
      moreover from Returns None "2.prems"(3) have "run_loans cs s1 held = Some (st', held')"
        by simp
      ultimately have "st' = run_calls cs s1 \<and> int (length held') \<le> busy_count st'
          \<and> busy_count st' \<le> int DB_POOL_CONN_COUNT"
        using "2.IH"(1) [OF Returns None] by blast
      with Returns show ?thesis by auto
    next
      case (Some c)
      with Returns cnt "2.prems" have "int (length (c # held)) \<le> busy_count s1" by auto
      moreover from Returns wf' have "wf_pool s1" by simp
      moreover from Returns Some "2.prems"(3)
      have "run_loans cs s1 (c # held) = Some (st', held')" by simp
      ultimately have "st' = run_calls cs s1 \<and> int (length held') \<le> busy_count st'
          \<and> busy_count st' \<le> int DB_POOL_CONN_COUNT"
        using "2.IH"(2) [OF Returns Some] by blast
      with Returns show ?thesis by auto
    qed
  qed
next
  case (3 env h cs st held)
  from "3.prems"(3) obtain c where h: "h = Some c" and c: "c \<in> set held"
    and run: "run_loans cs (snd (db_post_conn env h st)) (remove1 c held) = Some (st', held')"
    by (auto split: option.splits if_splits)
  let ?s1 = "snd (db_post_conn env h st)"
  note cnt = db_post_conn_count [OF "3.prems"(1), of env h]
  have wf': "wf_pool ?s1"
    using api_step_wf [OF "3.prems"(1), of "Call_db_post_conn env h"] by simp
  from c have pos: "0 < length held" by (cases held) auto
  from c have "length (remove1 c held) = length held - 1" by (simp add: length_remove1)
  with pos have "int (length (remove1 c held)) = int (length held) - 1"
    by (cases held) simp_all
  moreover from cnt have "busy_count st - 1 \<le> busy_count ?s1" by auto
  ultimately have "int (length (remove1 c held)) \<le> busy_count ?s1"
    using "3.prems"(2) by linarith
  with wf' run have "st' = run_calls cs ?s1 \<and> int (length held') \<le> busy_count st'
          \<and> busy_count st' \<le> int DB_POOL_CONN_COUNT"
    using "3.IH" [OF h c] by blast
  then show ?case by auto
qed simp_all

subsection \<open>The flags is_open and is_closed\<close>

text \<open>
  Claim C8. After any sequence of \<open>db_open\<close> and \<open>db_close\<close> calls from the initial
  variables, succeeding or failing, \<open>is_open\<close> and \<open>is_closed\<close> are not both 1. Each
  function writes the two variables one after the other while it holds the write lock; the
  states meant are those between calls, and the one in which a \<open>db_close\<close> waits.
\<close>

theorem open_and_closed_never_both:
  assumes "list_all is_open_or_close cs"
  shows "\<not> (is_open (run_calls cs initial_pool) = 1 \<and> is_closed (run_calls cs initial_pool) = 1)"
  by (rule run_calls_flags) (simp add: initial_pool_def)

theorem open_and_closed_never_both_witness:
  "list_all is_open_or_close
     [Call_db_open ok_open_env, Call_db_close ok_close_env, Call_db_open ok_open_env]
   \<and> \<not> (is_open (run_calls
            [Call_db_open ok_open_env, Call_db_close ok_close_env, Call_db_open ok_open_env]
            initial_pool) = 1
        \<and> is_closed (run_calls
            [Call_db_open ok_open_env, Call_db_close ok_close_env, Call_db_open ok_open_env]
            initial_pool) = 1)"
proof -
  have h: "list_all is_open_or_close
     [Call_db_open ok_open_env, Call_db_close ok_close_env, Call_db_open ok_open_env]"
    by simp
  from h open_and_closed_never_both [OF h] show ?thesis by blast
qed

text \<open>That run ends in the open pool.\<close>

lemma reopen_run_value:
  "run_calls [Call_db_open ok_open_env, Call_db_close ok_close_env, Call_db_open ok_open_env]
     initial_pool = open_pool"
  by code_simp

subsection \<open>db_error: the order of the diagnostics\<close>

text \<open>
  Claim C7, as stated, at a concrete pool: no last error, thread-safe, initialised, not open.
  The precedence of the claim gives \<open>err_not_open\<close>; when \<open>pthread_rwlock_rdlock\<close> fails,
  \<open>db_error\<close> returns \<open>err_rwlock\<close>.
\<close>

theorem db_error_rwlock_counterexample:
  "err_last closed_pool = None \<and> is_thread_safe closed_pool \<noteq> 0 \<and> is_inited closed_pool \<noteq> 0
   \<and> is_open closed_pool = 0
   \<and> last_error_precedence closed_pool = err_not_open
   \<and> db_error False closed_pool = err_rwlock"
  by (simp add: db_error_def last_error_precedence_def closed_pool_def open_pool_def)

text \<open>
  Claim C7 as amended. \<open>db_error\<close> returns the last error if one is set; else the
  not-thread-safe message if \<open>is_thread_safe\<close> is 0; else the not-initialised message if
  \<open>is_inited\<close> is 0; else the rw-lock message if the read lock cannot be taken; else the
  not-open message if \<open>is_open\<close> is 0; else the unknown-error message. That is the
  precedence of the claim with one more step, before the not-open one.
\<close>

theorem db_error_precedence:
  "db_error rdlock_ok st =
     (if err_last st = None \<and> is_thread_safe st \<noteq> 0 \<and> is_inited st \<noteq> 0 \<and> \<not> rdlock_ok
      then err_rwlock
      else last_error_precedence st)"
  by (simp add: db_error_def last_error_precedence_def split: option.splits)

theorem db_error_precedence_witness:
  "db_error False closed_pool = err_rwlock \<and> db_error True closed_pool = err_not_open"
proof -
  have "db_error False closed_pool =
     (if err_last closed_pool = None \<and> is_thread_safe closed_pool \<noteq> 0
         \<and> is_inited closed_pool \<noteq> 0 \<and> \<not> False
      then err_rwlock
      else last_error_precedence closed_pool)"
    by (rule db_error_precedence)
  also have "\<dots> = err_rwlock"
    by (simp add: closed_pool_def open_pool_def)
  finally have a: "db_error False closed_pool = err_rwlock" .
  have "db_error True closed_pool =
     (if err_last closed_pool = None \<and> is_thread_safe closed_pool \<noteq> 0
         \<and> is_inited closed_pool \<noteq> 0 \<and> \<not> True
      then err_rwlock
      else last_error_precedence closed_pool)"
    by (rule db_error_precedence)
  also have "\<dots> = err_not_open"
    by (simp add: closed_pool_def open_pool_def last_error_precedence_def)
  finally have b: "db_error True closed_pool = err_not_open" .
  from a b show ?thesis by blast
qed

end
